(* ===== verification/Prelude.thy ===== *)
theory Prelude
  imports Main "HOL-Library.Word"
begin

text \<open>
  Shared vocabulary of the development. Go strings are byte sequences, so a Go
  \<open>string\<close> or \<open>[]byte\<close> is a list of \<open>8 word\<close>; a Go \<open>rune\<close> (an \<open>int32\<close>
  that only ever holds a code point or \<open>RuneError\<close> here) is an \<open>int\<close>.
  \<open>golit\<close> turns an ASCII literal of the Go source into its bytes. The lemmas
  below read the bit operations the Go code uses (\<open>&\<close>, \<open>|\<close>, \<open>>>\<close>) as
  arithmetic on \<open>uint\<close>, which is how every byte-level proof of the library
  proceeds.
\<close>

unbundle bit_operations_syntax

type_synonym byte = "8 word"
type_synonym gostring = "byte list"
type_synonym rune = int

named_theorems byte_arith "arithmetic readings of byte-level bit operations"

definition golit :: "string \<Rightarrow> gostring" where
  "golit s = map of_char s"

abbreviation bslash :: byte where
  "bslash \<equiv> 0x5C"

abbreviation dquote :: byte where
  "dquote \<equiv> 0x22"

lemma golit_Nil [simp]: "golit [] = []"
  and golit_Cons [simp]: "golit (c # s) = of_char c # golit s"
  and golit_append [simp]: "golit (a @ b) = golit a @ golit b"
  by (simp_all add: golit_def)

subsection \<open>Bits as arithmetic\<close>

lemma bit_below_exp_int:
  assumes "0 \<le> (b::int)" "b < 2 ^ k" "bit b n"
  shows "n < k"
proof (rule ccontr)
  assume "\<not> n < k"
  then have "b < 2 ^ n"
    using assms(2) by (meson dual_order.strict_trans2 not_less one_le_numeral power_increasing)
  with assms(1) have "b div 2 ^ n = 0" by simp
  with assms(3) show False by (simp add: bit_iff_odd)
qed

lemma bit_multiple_exp_int:
  assumes "(a::int) mod 2 ^ k = 0" "bit a n"
  shows "k \<le> n"
proof -
  from assms(1) obtain q where "a = push_bit k q"
    by (metis mod_0_imp_dvd dvdE push_bit_eq_mult mult.commute)
  with assms(2) show ?thesis by (simp add: bit_push_bit_iff)
qed

lemma or_low_add_int:
  assumes "(a::int) mod 2 ^ k = 0" "0 \<le> b" "b < 2 ^ k"
  shows "a OR b = a + b"
  using assms bit_below_exp_int bit_multiple_exp_int
  by (metis disjunctive_add not_less)

lemma push_bit_or_low_int [byte_arith]:
  assumes "0 \<le> b" "b < 2 ^ k"
  shows "push_bit k (a::int) OR b = a * 2 ^ k + b"
proof -
  have "push_bit k a mod 2 ^ k = 0" by (simp add: push_bit_eq_mult)
  then have "push_bit k a OR b = push_bit k a + b"
    using assms by (rule or_low_add_int)
  then show ?thesis by (simp add: push_bit_eq_mult)
qed

lemma uint_and_mask [byte_arith]: "uint (w AND mask k :: 'a::len word) = uint w mod 2 ^ k"
  by (simp only: take_bit_eq_mask[symmetric] unsigned_take_bit_eq) (simp add: take_bit_eq_mod)

lemma uint_drop_bit [byte_arith]: "uint (drop_bit k (w :: 'a::len word)) = uint w div 2 ^ k"
  by (simp only: unsigned_drop_bit_eq) (simp add: drop_bit_eq_div take_bit_int_eq_self uint_bounded)

lemma byte_masks [byte_arith]:
  "(0x3F :: byte) = mask 6" "(0x1F :: byte) = mask 5" "(0x0F :: byte) = mask 4"
  "(0x07 :: byte) = mask 3" "(0xF :: int) = mask 4"
  by (simp_all add: mask_eq_exp_minus_1)

lemma uint_byte_or [byte_arith]:
  assumes "uint c mod 2 ^ k = 0" "uint w < 2 ^ k"
  shows "uint (c OR w :: byte) = uint c + uint w"
  using assms by (simp add: unsigned_or_eq or_low_add_int)

lemma uint_word_of_int_byte [byte_arith]: "uint (word_of_int x :: byte) = x mod 256"
  by (simp add: uint_word_of_int_eq take_bit_eq_mod)

lemma byte_eq_iff_uint: "(a :: byte) = b \<longleftrightarrow> uint a = uint b"
  by (simp add: word_uint_eq_iff)

lemma uint_byte_bound [simp]: "uint (b :: byte) < 256"
  using uint_bounded [of b] by simp

lemma byte_less_iff_uint: "(a :: byte) < b \<longleftrightarrow> uint a < uint b"
  and byte_le_iff_uint: "(a :: byte) \<le> b \<longleftrightarrow> uint a \<le> uint b"
  by (simp_all add: word_less_def word_le_def)

subsection \<open>Wrap-around of signed words\<close>

text \<open>
  A signed 64-bit word read back as an integer, and the two reductions modulo
  \<open>m\<close> that a wrapped difference needs.
\<close>

lemma sint64_word_of_int [byte_arith]:
  "sint (word_of_int x :: 64 word) = (x + 2 ^ 63) mod 2 ^ 64 - 2 ^ 63"
  by (simp add: int_word_sint)

lemma mod_shift_down: "m \<le> a \<Longrightarrow> a < 2 * m \<Longrightarrow> (a::int) mod m = a - m"
proof -
  assume "m \<le> a" "a < 2 * m"
  then have "(a - m) mod m = a - m" by (intro mod_pos_pos_trivial) simp_all
  then show ?thesis by (simp add: mod_diff_right_eq[symmetric])
qed

lemma mod_shift_up: "- m \<le> a \<Longrightarrow> a < 0 \<Longrightarrow> (a::int) mod m = a + m"
proof -
  assume "- m \<le> a" "a < 0"
  then have "(a + m) mod m = a + m" by (intro mod_pos_pos_trivial) simp_all
  then show ?thesis by simp
qed

subsection \<open>Integer division and lists\<close>

lemma div_succ_int:
  assumes "0 < (k::int)"
  shows "(d + 1) div k = d div k + (if (d + 1) mod k = 0 then 1 else 0)"
proof -
  define q r where "q = d div k" and "r = d mod k"
  have e: "d + 1 = (r + 1) + k * q" by (simp add: q_def r_def)
  have m: "0 \<le> r" "r < k" using assms by (simp_all add: r_def)
  show ?thesis
  proof (cases "r + 1 = k")
    case True
    then have "d + 1 = k * (q + 1)" using e by (simp add: algebra_simps)
    then show ?thesis using assms by (simp add: q_def)
  next
    case False
    then have r1: "0 \<le> r + 1" "r + 1 < k" using m by simp_all
    have "(d + 1) div k = (r + 1) div k + q" unfolding e using assms by simp
    moreover have "(r + 1) div k = 0" using r1 by (rule div_pos_pos_trivial)
    moreover have "(d + 1) mod k = r + 1" unfolding e using r1 by (simp add: mod_pos_pos_trivial)
    ultimately show ?thesis using m by (simp add: q_def)
  qed
qed

lemma bracket_int:
  "f 0 \<le> (x::int) \<Longrightarrow> x < f (int n) \<Longrightarrow> \<exists>y. 0 \<le> y \<and> y < int n \<and> f y \<le> x \<and> x < f (y + 1)"
proof (induction n)
  case (Suc n)
  show ?case
  proof (cases "x < f (int n)")
    case True
    then show ?thesis using Suc by force
  next
    case False
    then show ?thesis using Suc.prems by (intro exI [of _ "int n"]) (simp add: add.commute)
  qed
qed simp

lemma take_drop_append: "take w xs @ drop w xs @ ys = xs @ ys"
  by (simp only: append_assoc [symmetric] append_take_drop_id)

end
