(* ===== verification/Utf8.thy ===== *)
theory Utf8
  imports Prelude
begin

text \<open>
  Go's \<open>unicode/utf8\<close> as \<open>appendQuoted\<close> (src/logger.go) uses it:
  \<open>DecodeRuneInString\<close>, the table-driven decoder that returns
  \<open>(RuneError, 1)\<close> on any malformed, overlong, surrogate or truncated
  sequence, and \<open>EncodeRune\<close>. Both are written as the Go library writes
  them: the \<open>first\<close> table of lead-byte classes, the \<open>acceptRanges\<close> of
  second bytes, the masks and shifts. The lemmas read them arithmetically, give
  a reference decoder by cases on the lead byte, and prove the round trip: a
  valid rune encodes to bytes that decode back to it, and every multi-byte
  decode is canonical (re-encoding the rune gives back exactly the bytes read).
\<close>

unbundle bit_operations_syntax

subsection \<open>Constants\<close>

definition RuneError :: rune where "RuneError = 0xFFFD"
definition RuneSelf :: rune where "RuneSelf = 0x80"
definition MaxRune :: rune where "MaxRune = 0x10FFFF"

abbreviation surrogateMin :: rune where "surrogateMin \<equiv> 0xD800"
abbreviation surrogateMax :: rune where "surrogateMax \<equiv> 0xDFFF"

abbreviation locb :: byte where "locb \<equiv> 0x80"
abbreviation hicb :: byte where "hicb \<equiv> 0xBF"
abbreviation maskx :: byte where "maskx \<equiv> 0x3F"
abbreviation mask2 :: byte where "mask2 \<equiv> 0x1F"
abbreviation mask3 :: byte where "mask3 \<equiv> 0x0F"
abbreviation mask4 :: byte where "mask4 \<equiv> 0x07"

text \<open>
  The values of the \<open>first\<close> table: \<open>as\<close> (ASCII), \<open>xx\<close> (invalid lead), and
  \<open>s1\<close>..\<open>s7\<close>, whose low three bits are the sequence length and whose high
  nibble indexes \<open>acceptRanges\<close>.
\<close>

definition first :: "byte \<Rightarrow> byte" where
  "first b =
     (if b < 0x80 then 0xF0
      else if b < 0xC2 then 0xF1
      else if b < 0xE0 then 0x02
      else if b = 0xE0 then 0x13
      else if b < 0xED then 0x03
      else if b = 0xED then 0x23
      else if b < 0xF0 then 0x03
      else if b = 0xF0 then 0x34
      else if b < 0xF4 then 0x04
      else if b = 0xF4 then 0x44
      else 0xF1)"

definition acceptRanges :: "(byte \<times> byte) list" where
  "acceptRanges =
     [(locb, hicb), (0xA0, hicb), (locb, 0x9F), (0x90, hicb), (locb, 0x8F)]
     @ replicate 11 (0, 0)"

subsection \<open>DecodeRuneInString\<close>

text \<open>
  The ASCII/invalid branch of the Go code computes \<open>mask := rune(x) << 31 >> 31\<close>,
  which is \<open>0\<close> for \<open>as\<close> (bit 0 clear) and \<open>-1\<close> for \<open>xx\<close>; it returns the
  byte itself for the former and \<open>RuneError\<close> for the latter.
\<close>

definition DecodeRuneInString :: "gostring \<Rightarrow> rune \<times> nat" where
  "DecodeRuneInString s =
     (let n = length s in
      if n < 1 then (RuneError, 0) else
      let s0 = s ! 0; x = first s0 in
      if 0xF0 \<le> x then (if bit x 0 then RuneError else uint s0, 1) else
      let sz = unat (x AND 7); (lo, hi) = acceptRanges ! unat (drop_bit 4 x) in
      if n < sz then (RuneError, 1) else
      let s1 = s ! 1 in
      if s1 < lo \<or> hi < s1 then (RuneError, 1) else
      if sz \<le> 2 then (push_bit 6 (uint (s0 AND mask2)) OR uint (s1 AND maskx), 2) else
      let s2 = s ! 2 in
      if s2 < locb \<or> hicb < s2 then (RuneError, 1) else
      if sz \<le> 3 then
        (push_bit 12 (uint (s0 AND mask3)) OR push_bit 6 (uint (s1 AND maskx))
           OR uint (s2 AND maskx), 3) else
      let s3 = s ! 3 in
      if s3 < locb \<or> hicb < s3 then (RuneError, 1) else
      (push_bit 18 (uint (s0 AND mask4)) OR push_bit 12 (uint (s1 AND maskx))
         OR push_bit 6 (uint (s2 AND maskx)) OR uint (s3 AND maskx), 4))"

subsection \<open>EncodeRune\<close>

text \<open>
  \<open>EncodeRune\<close> switches on \<open>uint32(r)\<close>; a rune above \<open>MaxRune\<close> or a
  surrogate is replaced by \<open>RuneError\<close> and falls through to the three-byte
  case. \<open>byte(r >> k)\<close> is the arithmetic shift truncated to eight bits. The
  model returns \<open>p[:n]\<close>, the bytes the Go function writes.
\<close>

definition EncodeRune :: "rune \<Rightarrow> gostring" where
  "EncodeRune r =
     (let i = (word_of_int r :: 32 word) in
      if i \<le> 0x7F then [word_of_int r]
      else if i \<le> 0x7FF then
        [0xC0 OR word_of_int (drop_bit 6 r), 0x80 OR (word_of_int r AND maskx)]
      else
        let bad = (word_of_int MaxRune < i \<or> (0xD800 \<le> i \<and> i \<le> 0xDFFF));
            r = (if bad then RuneError else r) in
        if bad \<or> i \<le> 0xFFFF then
          [0xE0 OR word_of_int (drop_bit 12 r), 0x80 OR (word_of_int (drop_bit 6 r) AND maskx),
           0x80 OR (word_of_int r AND maskx)]
        else
          [0xF0 OR word_of_int (drop_bit 18 r), 0x80 OR (word_of_int (drop_bit 12 r) AND maskx),
           0x80 OR (word_of_int (drop_bit 6 r) AND maskx), 0x80 OR (word_of_int r AND maskx)])"

text \<open>A rune \<open>EncodeRune\<close> encodes as itself: a scalar value (\<open>utf8.ValidRune\<close>).\<close>

definition ValidRune :: "rune \<Rightarrow> bool" where
  "ValidRune r \<longleftrightarrow> (0 \<le> r \<and> r < surrogateMin) \<or> (surrogateMax < r \<and> r \<le> MaxRune)"

subsection \<open>A reference decoder\<close>

text \<open>
  \<open>decode_ref\<close> states UTF-8 decoding by cases on the lead byte, with the
  admissible second-byte ranges that exclude overlong forms (\<open>E0\<close>, \<open>F0\<close>),
  surrogates (\<open>ED\<close>) and code points above \<open>MaxRune\<close> (\<open>F4\<close>).
  \<open>DecodeRuneInString_ref\<close> shows the table-driven decoder computes it.
\<close>

definition in_range :: "int \<Rightarrow> int \<Rightarrow> byte \<Rightarrow> bool" where
  "in_range lo hi b \<longleftrightarrow> lo \<le> uint b \<and> uint b \<le> hi"

fun decode_ref :: "gostring \<Rightarrow> rune \<times> nat" where
  "decode_ref [] = (RuneError, 0)"
| "decode_ref (b0 # s) =
     (let c0 = uint b0 in
      if c0 < 0x80 then (c0, 1)
      else if c0 < 0xC2 \<or> 0xF4 < c0 then (RuneError, 1)
      else if c0 \<le> 0xDF then
        (case s of
          b1 # _ \<Rightarrow>
            if in_range 0x80 0xBF b1 then ((c0 - 0xC0) * 64 + (uint b1 - 0x80), 2)
            else (RuneError, 1)
        | _ \<Rightarrow> (RuneError, 1))
      else if c0 \<le> 0xEF then
        (case s of
          b1 # b2 # _ \<Rightarrow>
            if in_range (if c0 = 0xE0 then 0xA0 else 0x80) (if c0 = 0xED then 0x9F else 0xBF) b1
               \<and> in_range 0x80 0xBF b2
            then ((c0 - 0xE0) * 4096 + (uint b1 - 0x80) * 64 + (uint b2 - 0x80), 3)
            else (RuneError, 1)
        | _ \<Rightarrow> (RuneError, 1))
      else
        (case s of
          b1 # b2 # b3 # _ \<Rightarrow>
            if in_range (if c0 = 0xF0 then 0x90 else 0x80) (if c0 = 0xF4 then 0x8F else 0xBF) b1
               \<and> in_range 0x80 0xBF b2 \<and> in_range 0x80 0xBF b3
            then ((c0 - 0xF0) * 262144 + (uint b1 - 0x80) * 4096 + (uint b2 - 0x80) * 64
                  + (uint b3 - 0x80), 4)
            else (RuneError, 1)
        | _ \<Rightarrow> (RuneError, 1)))"

subsection \<open>Arithmetic readings of the tables and masks\<close>

lemma first_class:
  "uint b < 0x80 \<Longrightarrow> first b = 0xF0"
  "0x80 \<le> uint b \<Longrightarrow> uint b < 0xC2 \<Longrightarrow> first b = 0xF1"
  "0xF4 < uint b \<Longrightarrow> first b = 0xF1"
  "0xC2 \<le> uint b \<Longrightarrow> uint b \<le> 0xDF \<Longrightarrow> first b = 0x02"
  "uint b = 0xE0 \<Longrightarrow> first b = 0x13"
  "uint b = 0xED \<Longrightarrow> first b = 0x23"
  "0xE0 < uint b \<Longrightarrow> uint b \<le> 0xEF \<Longrightarrow> uint b \<noteq> 0xED \<Longrightarrow> first b = 0x03"
  "uint b = 0xF0 \<Longrightarrow> first b = 0x34"
  "0xF0 < uint b \<Longrightarrow> uint b < 0xF4 \<Longrightarrow> first b = 0x04"
  "uint b = 0xF4 \<Longrightarrow> first b = 0x44"
  by (auto simp: first_def byte_less_iff_uint byte_eq_iff_uint)

lemma cont_mod64: "0x80 \<le> c \<Longrightarrow> c \<le> (0xBF::int) \<Longrightarrow> c mod 64 = c - 0x80"
  by presburger

lemma lead_mod:
  "0xC0 \<le> c \<Longrightarrow> c \<le> (0xDF::int) \<Longrightarrow> c mod 32 = c - 0xC0"
  "0xE0 \<le> c \<Longrightarrow> c \<le> (0xEF::int) \<Longrightarrow> c mod 16 = c - 0xE0"
  "0xF0 \<le> c \<Longrightarrow> c \<le> (0xF7::int) \<Longrightarrow> c mod 8 = c - 0xF0"
  by presburger+

lemma or2_arith: "0 \<le> a \<Longrightarrow> a < 64 \<Longrightarrow> push_bit 6 x OR a = x * 64 + (a::int)"
  using push_bit_or_low_int [of a 6 x] by simp

lemma or3_arith:
  "0 \<le> a \<Longrightarrow> a < 64 \<Longrightarrow> 0 \<le> b \<Longrightarrow> b < 64 \<Longrightarrow>
   push_bit 12 x OR push_bit 6 a OR b = x * 4096 + a * 64 + (b::int)"
  using push_bit_or_low_int [of b 6 a] push_bit_or_low_int [of "a * 64 + b" 12 x] by simp

lemma or4_arith:
  "0 \<le> a \<Longrightarrow> a < 64 \<Longrightarrow> 0 \<le> b \<Longrightarrow> b < 64 \<Longrightarrow> 0 \<le> c \<Longrightarrow> c < 64 \<Longrightarrow>
   push_bit 18 x OR push_bit 12 a OR push_bit 6 b OR c = x * 262144 + a * 4096 + b * 64 + (c::int)"
  using push_bit_or_low_int [of c 6 b] push_bit_or_low_int [of "b * 64 + c" 12 a]
    push_bit_or_low_int [of "a * 4096 + b * 64 + c" 18 x] by (simp add: add.assoc)

lemma uint_and_maskx: "uint (b AND maskx) = uint b mod 64"
  and uint_and_mask2: "uint (b AND mask2) = uint b mod 32"
  and uint_and_mask3: "uint (b AND mask3) = uint b mod 16"
  and uint_and_mask4: "uint (b AND mask4) = uint b mod 8"
  by (simp_all add: byte_masks uint_and_mask)

lemma dec_values:
  "push_bit 6 (uint (s0 AND mask2)) OR uint (s1 AND maskx) = uint s0 mod 32 * 64 + uint s1 mod 64"
  "push_bit 12 (uint (s0 AND mask3)) OR push_bit 6 (uint (s1 AND maskx)) OR uint (s2 AND maskx)
     = uint s0 mod 16 * 4096 + uint s1 mod 64 * 64 + uint s2 mod 64"
  "push_bit 18 (uint (s0 AND mask4)) OR push_bit 12 (uint (s1 AND maskx))
     OR push_bit 6 (uint (s2 AND maskx)) OR uint (s3 AND maskx)
     = uint s0 mod 8 * 262144 + uint s1 mod 64 * 4096 + uint s2 mod 64 * 64 + uint s3 mod 64"
    apply (simp only: uint_and_maskx uint_and_mask2, rule or2_arith; simp)
   apply (simp only: uint_and_maskx uint_and_mask3, rule or3_arith; simp)
  apply (simp only: uint_and_maskx uint_and_mask4, rule or4_arith; simp)
  done

lemmas decode_unfold = DecodeRuneInString_def first_class acceptRanges_def Let_def in_range_def
  byte_less_iff_uint dec_values cont_mod64 lead_mod

lemma decode_2:
  assumes "0xC2 \<le> uint b0" "uint b0 \<le> 0xDF"
  shows "DecodeRuneInString (b0 # s) = decode_ref (b0 # s)"
proof (cases s)
  case Nil
  with assms show ?thesis by (simp add: DecodeRuneInString_def first_class acceptRanges_def)
next
  case (Cons b1 s')
  with assms show ?thesis
    by (auto simp: decode_unfold)
qed


lemma list_shapes3:
  obtains "s = []" | a where "s = [a]" | a b t where "s = a # b # t"
  by (metis list.exhaust)

lemma list_shapes4:
  obtains "s = []" | a where "s = [a]" | a b where "s = [a, b]" | a b c t where "s = a # b # c # t"
  by (metis list.exhaust)

lemma decode_3:
  assumes "0xE0 \<le> uint b0" "uint b0 \<le> 0xEF"
  shows "DecodeRuneInString (b0 # s) = decode_ref (b0 # s)"
proof -
  consider "uint b0 = 0xE0" | "uint b0 = 0xED" | "0xE0 < uint b0" "uint b0 \<noteq> 0xED"
    using assms by linarith
  then show ?thesis
  proof cases
    case 1 then show ?thesis by (cases s rule: list_shapes3) (simp_all add: decode_unfold)
  next
    case 2 then show ?thesis by (cases s rule: list_shapes3) (simp_all add: decode_unfold)
  next
    case 3 then show ?thesis using assms by (cases s rule: list_shapes3) (simp_all add: decode_unfold)
  qed
qed

lemma decode_4:
  assumes "0xF0 \<le> uint b0" "uint b0 \<le> 0xF4"
  shows "DecodeRuneInString (b0 # s) = decode_ref (b0 # s)"
proof -
  consider "uint b0 = 0xF0" | "uint b0 = 0xF4" | "0xF0 < uint b0" "uint b0 < 0xF4"
    using assms by linarith
  then show ?thesis
  proof cases
    case 1 then show ?thesis by (cases s rule: list_shapes4) (simp_all add: decode_unfold)
  next
    case 2 then show ?thesis by (cases s rule: list_shapes4) (simp_all add: decode_unfold)
  next
    case 3 then show ?thesis using assms by (cases s rule: list_shapes4) (simp_all add: decode_unfold)
  qed
qed

theorem DecodeRuneInString_ref: "DecodeRuneInString s = decode_ref s"
proof (cases s)
  case Nil
  then show ?thesis by (simp add: DecodeRuneInString_def)
next
  case (Cons b0 s')
  consider "uint b0 < 0x80" | "0x80 \<le> uint b0" "uint b0 < 0xC2" | "0xF4 < uint b0"
    | "0xC2 \<le> uint b0" "uint b0 \<le> 0xDF" | "0xE0 \<le> uint b0" "uint b0 \<le> 0xEF"
    | "0xF0 \<le> uint b0" "uint b0 \<le> 0xF4"
    by linarith
  then show ?thesis
  proof cases
    case 4 with Cons show ?thesis by (simp add: decode_2)
  next
    case 5 with Cons show ?thesis by (simp add: decode_3)
  next
    case 6 with Cons show ?thesis by (simp add: decode_4)
  qed (use Cons in \<open>simp_all add: decode_unfold\<close>)
qed

lemma byte_or_low:
  assumes "uint c = n" "n mod 2 ^ k = 0" "n + 2 ^ k \<le> 256" "0 \<le> x" "x < 2 ^ k"
  shows "(c OR word_of_int x :: byte) = word_of_int (n + x)"
proof -
  have x: "x mod 256 = x" using assms(1,3-5) uint_ge_0 [of c] by simp
  have "uint (c OR word_of_int x) = n + x"
    using assms by (simp add: uint_byte_or uint_word_of_int_byte x)
  moreover have "(n + x) mod 256 = n + x"
    using assms(1,3-5) uint_ge_0 [of c] by simp
  ultimately show ?thesis by (simp only: byte_eq_iff_uint uint_word_of_int_byte)
qed

lemma word_of_int_and_maskx: "(word_of_int y AND maskx :: byte) = word_of_int (y mod 64)"
proof -
  have "y mod 256 mod 64 = y mod 64" by (simp add: mod_mod_cancel)
  then show ?thesis
    by (simp add: byte_eq_iff_uint uint_and_maskx uint_word_of_int_byte)
qed

lemma uint32_word_of_int: "0 \<le> r \<Longrightarrow> r < 2 ^ 32 \<Longrightarrow> uint (word_of_int r :: 32 word) = r"
  by (simp add: uint_word_of_int_eq take_bit_int_eq_self)

lemma cont_byte: "(0x80 OR word_of_int (y mod 64) :: byte) = word_of_int (0x80 + y mod 64)"
  by (rule byte_or_low [where k = 6]) simp_all

lemmas encode_unfold = EncodeRune_def Let_def MaxRune_def word_le_def word_less_def uint32_word_of_int
  drop_bit_eq_div word_of_int_and_maskx cont_byte

lemma encode_2:
  assumes "0x80 \<le> r" "r \<le> 0x7FF"
  shows "EncodeRune r = [word_of_int (0xC0 + r div 64), word_of_int (0x80 + r mod 64)]"
proof -
  have "0 \<le> r div 64" "r div 64 < 32" using assms by simp_all
  then have "(0xC0 OR word_of_int (r div 64) :: byte) = word_of_int (0xC0 + r div 64)"
    by (intro byte_or_low [where k = 5]) simp_all
  with assms show ?thesis by (simp add: encode_unfold)
qed

lemma encode_1:
  assumes "0 \<le> r" "r \<le> 0x7F"
  shows "EncodeRune r = [word_of_int r]"
  using assms by (simp add: encode_unfold)

lemma encode_3:
  assumes "0x800 \<le> r" "r \<le> 0xFFFF" "r < surrogateMin \<or> surrogateMax < r"
  shows "EncodeRune r = [word_of_int (0xE0 + r div 4096), word_of_int (0x80 + r div 64 mod 64),
                         word_of_int (0x80 + r mod 64)]"
proof -
  have "0 \<le> r div 4096" "r div 4096 < 16" using assms by simp_all
  then have "(0xE0 OR word_of_int (r div 4096) :: byte) = word_of_int (0xE0 + r div 4096)"
    by (intro byte_or_low [where k = 4]) simp_all
  moreover have "r div 64 div 64 = r div 4096" by (simp add: zdiv_zmult2_eq [symmetric])
  ultimately show ?thesis using assms by (auto simp: encode_unfold)
qed

lemma encode_4:
  assumes "0x10000 \<le> r" "r \<le> MaxRune"
  shows "EncodeRune r = [word_of_int (0xF0 + r div 262144), word_of_int (0x80 + r div 4096 mod 64),
                         word_of_int (0x80 + r div 64 mod 64), word_of_int (0x80 + r mod 64)]"
proof -
  have "0 \<le> r div 262144" "r div 262144 < 8" using assms by (simp_all add: MaxRune_def)
  then have "(0xF0 OR word_of_int (r div 262144) :: byte) = word_of_int (0xF0 + r div 262144)"
    by (intro byte_or_low [where k = 3]) simp_all
  moreover have "r div 64 div 64 = r div 4096" "r div 4096 div 64 = r div 262144"
    by (simp_all add: zdiv_zmult2_eq [symmetric])
  ultimately show ?thesis using assms by (auto simp: encode_unfold)
qed

lemma uint32_word_of_int_neg:
  "- (2 ^ 31) \<le> r \<Longrightarrow> r < 0 \<Longrightarrow> uint (word_of_int r :: 32 word) = r + 2 ^ 32"
proof -
  assume "- (2 ^ 31) \<le> r" "r < 0"
  then have "(r + 2 ^ 32) mod 2 ^ 32 = r + 2 ^ 32" by (intro mod_pos_pos_trivial) simp_all
  then have "r mod 2 ^ 32 = r + 2 ^ 32" by simp
  then show ?thesis by (simp add: uint_word_of_int_eq take_bit_eq_mod)
qed

lemma encode_invalid:
  assumes "- (2 ^ 31) \<le> r" "r < 2 ^ 31" "\<not> ValidRune r"
  shows "EncodeRune r = [0xEF, 0xBF, 0xBD]"
proof -
  consider "r < 0" | "surrogateMin \<le> r" "r \<le> surrogateMax" | "MaxRune < r"
    using assms(3) by (auto simp: ValidRune_def)
  then show ?thesis
  proof cases
    case 1
    then show ?thesis using assms(1) by (simp add: encode_unfold uint32_word_of_int_neg RuneError_def)
  next
    case 2
    then show ?thesis by (simp add: encode_unfold RuneError_def)
  next
    case 3
    then show ?thesis using assms(2) by (simp add: encode_unfold RuneError_def)
  qed
qed
lemma byte_val: "0 \<le> x \<Longrightarrow> x < 256 \<Longrightarrow> uint (word_of_int x :: byte) = x"
  by (simp add: uint_word_of_int_byte)

lemma split3: "r div 4096 * 4096 + r div 64 mod 64 * 64 + r mod 64 = (r::int)"
proof -
  have "r div 64 = r div 4096 * 64 + r div 64 mod 64"
    using div_mult_mod_eq [of "r div 64" 64] by (simp add: zdiv_zmult2_eq [symmetric])
  then show ?thesis using div_mult_mod_eq [of r 64] by algebra
qed

lemma split4: "r div 262144 * 262144 + r div 4096 mod 64 * 4096 + r div 64 mod 64 * 64 + r mod 64 = (r::int)"
proof -
  have "r div 4096 = r div 262144 * 64 + r div 4096 mod 64"
    using div_mult_mod_eq [of "r div 4096" 64] by (simp add: zdiv_zmult2_eq [symmetric])
  then show ?thesis using split3 [of r] by algebra
qed

lemma roundtrip_2:
  assumes "0x80 \<le> r" "r \<le> 0x7FF"
  shows "DecodeRuneInString (EncodeRune r @ s) = (r, 2)"
proof -
  have "2 \<le> r div 64" "r div 64 \<le> 31" "0 \<le> r mod 64" "r mod 64 < 64" using assms by simp_all
  then show ?thesis using assms unfolding encode_2 [OF assms] DecodeRuneInString_ref
    by (simp add: byte_val in_range_def Let_def del: of_int_add)
qed

lemma roundtrip_3:
  assumes "0x800 \<le> r" "r \<le> 0xFFFF" "r < surrogateMin \<or> surrogateMax < r"
  shows "DecodeRuneInString (EncodeRune r @ s) = (r, 3)"
proof -
  define a b c where "a = r div 4096" and "b = r div 64 mod 64" and "c = r mod 64"
  have r: "r = a * 4096 + b * 64 + c" unfolding a_def b_def c_def by (rule split3 [symmetric])
  have bnd: "0 \<le> a" "a \<le> 15" "0 \<le> b" "b < 64" "0 \<le> c" "c < 64"
    using assms unfolding a_def b_def c_def by simp_all
  have e: "EncodeRune r = [word_of_int (0xE0 + a), word_of_int (0x80 + b), word_of_int (0x80 + c)]"
    using assms unfolding a_def b_def c_def by (rule encode_3)
  have lo: "a = 0 \<Longrightarrow> 32 \<le> b" and hi: "a = 13 \<Longrightarrow> b \<le> 31"
    using assms bnd unfolding r by linarith+
  show ?thesis using bnd lo hi unfolding e DecodeRuneInString_ref
    by (simp add: byte_val in_range_def Let_def r del: of_int_add)
qed

lemma roundtrip_4:
  assumes "0x10000 \<le> r" "r \<le> MaxRune"
  shows "DecodeRuneInString (EncodeRune r @ s) = (r, 4)"
proof -
  define a b c d where "a = r div 262144" and "b = r div 4096 mod 64" and "c = r div 64 mod 64"
    and "d = r mod 64"
  have r: "r = a * 262144 + b * 4096 + c * 64 + d"
    unfolding a_def b_def c_def d_def by (rule split4 [symmetric])
  have bnd: "0 \<le> a" "a \<le> 4" "0 \<le> b" "b < 64" "0 \<le> c" "c < 64" "0 \<le> d" "d < 64"
    using assms unfolding a_def b_def c_def d_def MaxRune_def by simp_all
  have e: "EncodeRune r = [word_of_int (0xF0 + a), word_of_int (0x80 + b), word_of_int (0x80 + c),
                           word_of_int (0x80 + d)]"
    using assms unfolding a_def b_def c_def d_def by (rule encode_4)
  have lo: "a = 0 \<Longrightarrow> 16 \<le> b" and hi: "a = 4 \<Longrightarrow> b \<le> 15"
    using assms bnd unfolding r MaxRune_def by linarith+
  show ?thesis using bnd lo hi unfolding e DecodeRuneInString_ref
    by (simp add: byte_val in_range_def Let_def r del: of_int_add)
qed

lemma roundtrip_1:
  assumes "0 \<le> r" "r \<le> 0x7F"
  shows "DecodeRuneInString (EncodeRune r @ s) = (r, 1)"
  using assms by (simp add: encode_1 DecodeRuneInString_ref byte_val)

theorem utf8_roundtrip:
  assumes "ValidRune r"
  shows "DecodeRuneInString (EncodeRune r @ s) = (r, length (EncodeRune r))"
proof -
  consider "0 \<le> r" "r \<le> 0x7F" | "0x80 \<le> r" "r \<le> 0x7FF"
    | "0x800 \<le> r" "r \<le> 0xFFFF" "r < surrogateMin \<or> surrogateMax < r"
    | "0x10000 \<le> r" "r \<le> MaxRune"
    using assms unfolding ValidRune_def by linarith
  then show ?thesis
  proof cases
    case 1 then show ?thesis using roundtrip_1 [OF 1, of s] by (simp add: encode_1 [OF 1])
  next
    case 2 then show ?thesis using roundtrip_2 [OF 2, of s] by (simp add: encode_2 [OF 2])
  next
    case 3 then show ?thesis using roundtrip_3 [OF 3, of s] by (simp add: encode_3 [OF 3])
  next
    case 4 then show ?thesis using roundtrip_4 [OF 4, of s] by (simp add: encode_4 [OF 4])
  qed
qed

lemma lin_divmod:
  assumes "0 \<le> y" "y < m"
  shows "(x * m + y) div m = (x::int)" "(x * m + y) mod m = y"
  using assms by simp_all

lemma canon_2:
  assumes "0xC2 \<le> uint b0" "uint b0 \<le> 0xDF" "0x80 \<le> uint b1" "uint b1 \<le> 0xBF"
  defines "r \<equiv> (uint b0 - 0xC0) * 64 + (uint b1 - 0x80)"
  shows "ValidRune r \<and> 0x80 \<le> r \<and> EncodeRune r = [b0, b1]"
proof -
  have "0x80 \<le> r" "r \<le> 0x7FF" using assms by simp_all
  moreover have "r div 64 = uint b0 - 0xC0"
    unfolding r_def by (rule lin_divmod) (use assms in simp_all)
  moreover have "r mod 64 = uint b1 - 0x80"
    unfolding r_def by (rule lin_divmod) (use assms in simp_all)
  ultimately show ?thesis by (simp add: encode_2 ValidRune_def MaxRune_def)
qed

lemma canon_3:
  assumes "0xE0 \<le> uint b0" "uint b0 \<le> 0xEF"
    "in_range (if uint b0 = 0xE0 then 0xA0 else 0x80) (if uint b0 = 0xED then 0x9F else 0xBF) b1"
    "in_range 0x80 0xBF b2"
  defines "r \<equiv> (uint b0 - 0xE0) * 4096 + (uint b1 - 0x80) * 64 + (uint b2 - 0x80)"
  shows "ValidRune r \<and> 0x80 \<le> r \<and> EncodeRune r = [b0, b1, b2]"
proof -
  define a b c where "a = uint b0 - 0xE0" and "b = uint b1 - 0x80" and "c = uint b2 - 0x80"
  have b1: "0x80 \<le> uint b1" "uint b1 \<le> 0xBF" "uint b0 = 0xE0 \<Longrightarrow> 0xA0 \<le> uint b1"
    "uint b0 = 0xED \<Longrightarrow> uint b1 \<le> 0x9F"
    using assms(3) unfolding in_range_def by (simp_all split: if_splits)
  have bnd: "0 \<le> a" "a \<le> 15" "0 \<le> b" "b < 64" "0 \<le> c" "c < 64"
    "a = 0 \<Longrightarrow> 32 \<le> b" "a = 13 \<Longrightarrow> b \<le> 31"
    using assms(1,2,4) b1 unfolding a_def b_def c_def in_range_def by simp_all
  have r0: "r = a * 4096 + b * 64 + c"
    by (simp only: r_def a_def b_def c_def)
  have r1: "r = a * 4096 + (b * 64 + c)" and r2: "r = (a * 64 + b) * 64 + c"
    unfolding r0 by (simp_all add: algebra_simps)
  have "r div 4096 = a" unfolding r1 by (rule lin_divmod) (use bnd in simp_all)
  moreover have "r div 64 = a * 64 + b" unfolding r2 by (rule lin_divmod) (use bnd in simp_all)
  moreover have "r mod 64 = c" unfolding r2 by (rule lin_divmod) (use bnd in simp_all)
  moreover have "(a * 64 + b) mod 64 = b" by (rule lin_divmod) (use bnd in simp_all)
  moreover have "0x800 \<le> r" "r \<le> 0xFFFF"
    using bnd unfolding r1 by linarith+
  moreover have "r < surrogateMin \<or> surrogateMax < r"
  proof (cases "a \<le> 13")
    case True
    then have "r < surrogateMin" using bnd unfolding r1 by (cases "a = 13") linarith+
    then show ?thesis ..
  next
    case False
    then have "surrogateMax < r" using bnd unfolding r1 by linarith
    then show ?thesis ..
  qed
  moreover have "0xE0 + a = uint b0" "0x80 + b = uint b1" "0x80 + c = uint b2"
    unfolding a_def b_def c_def by simp_all
  ultimately show ?thesis
    by (simp add: encode_3 ValidRune_def MaxRune_def del: of_int_add)
qed

lemma canon_4:
  assumes "0xF0 \<le> uint b0" "uint b0 \<le> 0xF4"
    "in_range (if uint b0 = 0xF0 then 0x90 else 0x80) (if uint b0 = 0xF4 then 0x8F else 0xBF) b1"
    "in_range 0x80 0xBF b2" "in_range 0x80 0xBF b3"
  defines "r \<equiv> (uint b0 - 0xF0) * 262144 + (uint b1 - 0x80) * 4096 + (uint b2 - 0x80) * 64
               + (uint b3 - 0x80)"
  shows "ValidRune r \<and> 0x80 \<le> r \<and> EncodeRune r = [b0, b1, b2, b3]"
proof -
  define a b c d where "a = uint b0 - 0xF0" and "b = uint b1 - 0x80" and "c = uint b2 - 0x80"
    and "d = uint b3 - 0x80"
  have b1: "0x80 \<le> uint b1" "uint b1 \<le> 0xBF" "uint b0 = 0xF0 \<Longrightarrow> 0x90 \<le> uint b1"
    "uint b0 = 0xF4 \<Longrightarrow> uint b1 \<le> 0x8F"
    using assms(3) unfolding in_range_def by (simp_all split: if_splits)
  have bnd: "0 \<le> a" "a \<le> 4" "0 \<le> b" "b < 64" "0 \<le> c" "c < 64" "0 \<le> d" "d < 64"
    "a = 0 \<Longrightarrow> 16 \<le> b" "a = 4 \<Longrightarrow> b \<le> 15"
    using assms(1,2,4,5) b1 unfolding a_def b_def c_def d_def in_range_def by simp_all
  have r0: "r = a * 262144 + b * 4096 + c * 64 + d"
    by (simp only: r_def a_def b_def c_def d_def)
  have r1: "r = a * 262144 + (b * 4096 + c * 64 + d)" and r2: "r = ((a * 64 + b) * 64 + c) * 64 + d"
    and r3: "r = (a * 64 + b) * 4096 + (c * 64 + d)"
    unfolding r0 by (simp_all add: algebra_simps)
  have "r div 262144 = a" unfolding r1 by (rule lin_divmod) (use bnd in simp_all)
  moreover have "r div 4096 = a * 64 + b" unfolding r3 by (rule lin_divmod) (use bnd in simp_all)
  moreover have "r div 64 = (a * 64 + b) * 64 + c" unfolding r2 by (rule lin_divmod) (use bnd in simp_all)
  moreover have "r mod 64 = d" unfolding r2 by (rule lin_divmod) (use bnd in simp_all)
  moreover have "(a * 64 + b) mod 64 = b" by (rule lin_divmod) (use bnd in simp_all)
  moreover have "((a * 64 + b) * 64 + c) mod 64 = c" by (rule lin_divmod) (use bnd in simp_all)
  moreover have "0x10000 \<le> r" "r \<le> MaxRune"
    using bnd unfolding r1 MaxRune_def by linarith+
  moreover have "0xF0 + a = uint b0" "0x80 + b = uint b1" "0x80 + c = uint b2" "0x80 + d = uint b3"
    unfolding a_def b_def c_def d_def by simp_all
  ultimately show ?thesis
    by (simp add: encode_4 ValidRune_def MaxRune_def del: of_int_add)
qed

theorem utf8_canonical:
  assumes "DecodeRuneInString s = (r, n)" "2 \<le> n"
  shows "ValidRune r \<and> 0x80 \<le> r \<and> take n s = EncodeRune r"
proof -
  obtain b0 t where s: "s = b0 # t"
    using assms by (cases s) (auto simp: DecodeRuneInString_ref)
  have d: "decode_ref (b0 # t) = (r, n)" using assms(1) s by (simp add: DecodeRuneInString_ref)
  consider (c2) "0xC2 \<le> uint b0" "uint b0 \<le> 0xDF" | (c3) "0xE0 \<le> uint b0" "uint b0 \<le> 0xEF"
    | (c4) "0xF0 \<le> uint b0" "uint b0 \<le> 0xF4" | (other) "uint b0 < 0xC2 \<or> 0xF4 < uint b0"
    by linarith
  then show ?thesis
  proof cases
    case c2
    with d assms(2) obtain b1 t' where "t = b1 # t'" "in_range 0x80 0xBF b1" "n = 2"
      "r = (uint b0 - 0xC0) * 64 + (uint b1 - 0x80)"
      by (cases t rule: list_shapes3) (auto simp: Let_def split: if_splits)
    with c2 show ?thesis using canon_2 [of b0 b1] by (simp add: s in_range_def)
  next
    case c3
    with d assms(2) obtain b1 b2 t' where "t = b1 # b2 # t'" "n = 3"
      "in_range (if uint b0 = 0xE0 then 0xA0 else 0x80) (if uint b0 = 0xED then 0x9F else 0xBF) b1"
      "in_range 0x80 0xBF b2" "r = (uint b0 - 0xE0) * 4096 + (uint b1 - 0x80) * 64 + (uint b2 - 0x80)"
      by (cases t rule: list_shapes3) (auto simp: Let_def split: if_splits)
    with c3 show ?thesis using canon_3 [of b0 b1 b2] by (simp add: s)
  next
    case c4
    with d assms(2) obtain b1 b2 b3 t' where "t = b1 # b2 # b3 # t'" "n = 4"
      "in_range (if uint b0 = 0xF0 then 0x90 else 0x80) (if uint b0 = 0xF4 then 0x8F else 0xBF) b1"
      "in_range 0x80 0xBF b2" "in_range 0x80 0xBF b3"
      "r = (uint b0 - 0xF0) * 262144 + (uint b1 - 0x80) * 4096 + (uint b2 - 0x80) * 64 + (uint b3 - 0x80)"
      by (cases t rule: list_shapes4) (auto simp: Let_def split: if_splits)
    with c4 show ?thesis using canon_4 [of b0 b1 b2 b3] by (simp add: s)
  next
    case other
    with d assms(2) show ?thesis by (auto simp: Let_def split: if_splits)
  qed
qed

lemma decode_shape:
  assumes "DecodeRuneInString (b0 # t) = (r, n)"
  shows "(n = 1 \<and> r = (if uint b0 < 0x80 then uint b0 else RuneError))
         \<or> (2 \<le> n \<and> n \<le> Suc (length t))"
  using assms unfolding DecodeRuneInString_ref
  by (cases t rule: list_shapes4) (auto simp: Let_def split: if_splits)

end
