(* ===== verification/Strconv.thy ===== *)
theory Strconv
  imports Prelude
begin

text \<open>
  The two functions of Go's \<open>strconv\<close> that src/logger.go calls:
  \<open>IsPrint\<close> (in \<open>appendQuoted\<close>) and \<open>Itoa\<close> (for the status and size
  fields of \<open>buildCommonLogLine\<close>). \<open>IsPrint\<close> is written as the library
  writes it: a Latin-1 fast path, then a binary search (\<open>bsearch16\<close>,
  \<open>bsearch32\<close>) in generated range tables. The tables are Unicode data, not
  code: they are a parameter (\<open>print_tables\<close>) of every operation that
  prints, so each theorem holds for whatever tables the Go release ships.
  The lemmas prove the loop of the binary search terminates and that it
  computes the reference "number of entries below the key" on a sorted table,
  and give \<open>Itoa\<close> its inverse.
\<close>

unbundle bit_operations_syntax

subsection \<open>Binary search\<close>

text \<open>
  \<open>bsearch16\<close>/\<open>bsearch32\<close>: \<open>i, j := 0, len(a); for i < j { h := i + (j-i)>>1;
  if a[h] < x { i = h + 1 } else { j = h } }; return i\<close>. One polymorphic loop
  serves both widths.
\<close>

function bsearch_loop :: "'a::linorder list \<Rightarrow> 'a \<Rightarrow> nat \<Rightarrow> nat \<Rightarrow> nat" where
  "bsearch_loop a x i j =
     (if i < j then
        (let h = i + (j - i) div 2 in
         if a ! h < x then bsearch_loop a x (Suc h) j else bsearch_loop a x i h)
      else i)"
  by pat_completeness auto
termination
  by (relation "measure (\<lambda>(a, x, i, j). j - i)") auto

declare bsearch_loop.simps [simp del]

definition bsearch :: "'a::linorder list \<Rightarrow> 'a \<Rightarrow> nat" where
  "bsearch a x = bsearch_loop a x 0 (length a)"

subsection \<open>IsPrint\<close>

record print_tables =
  isPrint16 :: "16 word list"
  isNotPrint16 :: "16 word list"
  isPrint32 :: "32 word list"
  isNotPrint32 :: "16 word list"

text \<open>
  \<open>isPrint[i&^1]\<close> and \<open>isPrint[i|1]\<close> are the bounds of the range pair the
  search landed in: \<open>2 * (i div 2)\<close> and \<open>2 * (i div 2) + 1\<close>.
  \<open>isNotPrint32\<close> holds 16-bit offsets from \<open>0x10000\<close>.
\<close>

definition in_pair_table :: "'a::linorder list \<Rightarrow> 'a \<Rightarrow> bool" where
  "in_pair_table t x =
     (let i = bsearch t x in
      \<not> (length t \<le> i \<or> x < t ! (2 * (i div 2)) \<or> t ! (2 * (i div 2) + 1) < x))"

definition not_listed :: "'a::linorder list \<Rightarrow> 'a \<Rightarrow> bool" where
  "not_listed t x = (let j = bsearch t x in length t \<le> j \<or> t ! j \<noteq> x)"

definition IsPrint :: "print_tables \<Rightarrow> rune \<Rightarrow> bool" where
  "IsPrint tb r =
     (if r \<le> 0xFF then
        (if 0x20 \<le> r \<and> r \<le> 0x7E then True
         else if 0xA1 \<le> r \<and> r \<le> 0xFF then r \<noteq> 0xAD
         else False)
      else if 0 \<le> r \<and> r < 2 ^ 16 then
        (let rr = (word_of_int r :: 16 word) in
         in_pair_table (isPrint16 tb) rr \<and> not_listed (isNotPrint16 tb) rr)
      else
        (let rr = (word_of_int r :: 32 word) in
         in_pair_table (isPrint32 tb) rr \<and>
         (0x20000 \<le> r \<or> not_listed (isNotPrint32 tb) (word_of_int (r - 0x10000)))))"

subsection \<open>Itoa\<close>

text \<open>
  \<open>strconv.Itoa(i)\<close> is \<open>FormatInt(int64(i), 10)\<close>: a minus sign for a negative
  value, then the decimal digits of its magnitude, most significant first.
\<close>

function digits10 :: "int \<Rightarrow> gostring" where
  "digits10 n =
     (if n < 10 then [word_of_int (48 + n)] else digits10 (n div 10) @ [word_of_int (48 + n mod 10)])"
  by pat_completeness auto
termination
  by (relation "measure nat") auto

declare digits10.simps [simp del]

definition Itoa :: "int \<Rightarrow> gostring" where
  "Itoa i = (if i < 0 then golit ''-'' @ digits10 (- i) else digits10 i)"

text \<open>
  The reference reader of decimal numerals used to state that \<open>Itoa\<close> is
  injective and readable: an optional minus sign, then decimal digits.
\<close>

fun digits_val :: "int \<Rightarrow> gostring \<Rightarrow> int option" where
  "digits_val acc [] = Some acc"
| "digits_val acc (d # ds) =
     (if 0x30 \<le> uint d \<and> uint d \<le> 0x39 then digits_val (acc * 10 + (uint d - 0x30)) ds else None)"

definition parse_dec :: "gostring \<Rightarrow> int option" where
  "parse_dec s =
     (case s of
        [] \<Rightarrow> None
      | c # cs \<Rightarrow> if c = 0x2D then (if cs = [] then None else map_option uminus (digits_val 0 cs))
                  else digits_val 0 s)"

text \<open>The bytes \<open>Itoa\<close> can print: the minus sign and the ten digits.\<close>

definition decimal_chars :: gostring where
  "decimal_chars = golit ''-0123456789''"

subsection \<open>Binary search\<close>

lemma bsearch_loop_takeWhile:
  assumes "sorted a" "i \<le> j" "j \<le> length a" "\<forall>k < i. a ! k < x" "\<forall>k. j \<le> k \<and> k < length a \<longrightarrow> \<not> a ! k < x"
  shows "bsearch_loop a x i j = length (takeWhile (\<lambda>y. y < x) a)"
  using assms
proof (induction a x i j rule: bsearch_loop.induct)
  case (1 a x i j)
  show ?case
  proof (cases "i < j")
    case True
    define h where "h = i + (j - i) div 2"
    have h: "i \<le> h" "h < j" using True by (simp_all add: h_def)
    show ?thesis
    proof (cases "a ! h < x")
      case lt: True
      have "\<forall>k < Suc h. a ! k < x"
      proof (intro allI impI)
        fix k assume "k < Suc h"
        then have "a ! k \<le> a ! h" using 1(3) h 1(5) by (intro sorted_nth_mono) simp_all
        then show "a ! k < x" using lt by simp
      qed
      then have "bsearch_loop a x (Suc h) j = length (takeWhile (\<lambda>y. y < x) a)"
        using 1 True h lt by (intro 1(1) [OF True h_def]) simp_all
      then show ?thesis using True lt by (simp add: bsearch_loop.simps [of a x i j] h_def [symmetric])
    next
      case ge: False
      have "\<forall>k. h \<le> k \<and> k < length a \<longrightarrow> \<not> a ! k < x"
      proof (intro allI impI)
        fix k assume "h \<le> k \<and> k < length a"
        then have "a ! h \<le> a ! k" using 1(3) by (intro sorted_nth_mono) simp_all
        then show "\<not> a ! k < x" using ge by simp
      qed
      then have "bsearch_loop a x i h = length (takeWhile (\<lambda>y. y < x) a)"
        using 1 True h ge by (intro 1(2) [OF True h_def]) simp_all
      then show ?thesis using True ge by (simp add: bsearch_loop.simps [of a x i j] h_def [symmetric])
    qed
  next
    case False
    then have ij: "i = j" using 1(4) by simp
    have "takeWhile (\<lambda>y. y < x) a = take i a"
      using 1(6,7) ij by (intro takeWhile_eq_take_P_nth) auto
    then show ?thesis using 1(5) ij by (simp add: bsearch_loop.simps [of a x j j])
  qed
qed

lemma bsearch_takeWhile: "sorted a \<Longrightarrow> bsearch a x = length (takeWhile (\<lambda>y. y < x) a)"
  unfolding bsearch_def by (rule bsearch_loop_takeWhile) auto

subsection \<open>Itoa\<close>

lemma digits_val_append:
  "digits_val acc (xs @ ys) = (case digits_val acc xs of None \<Rightarrow> None | Some v \<Rightarrow> digits_val v ys)"
  by (induction acc xs rule: digits_val.induct) simp_all

lemma digit_byte: "0 \<le> d \<Longrightarrow> d < 10 \<Longrightarrow> uint (word_of_int (48 + d) :: byte) = 48 + d"
  by (simp add: uint_word_of_int_byte del: of_int_add)

lemma digits_val_digits10:
  "0 \<le> n \<Longrightarrow> digits_val acc (digits10 n) = Some (acc * 10 ^ length (digits10 n) + n)"
proof (induction n arbitrary: acc rule: digits10.induct)
  case (1 n)
  show ?case
  proof (cases "n < 10")
    case True
    then show ?thesis using 1(2) by (simp add: digits10.simps [of n] digit_byte del: of_int_add)
  next
    case False
    have d: "0 \<le> n mod 10" "n mod 10 < 10" by simp_all
    have ih: "digits_val acc (digits10 (n div 10)) = Some (acc * 10 ^ length (digits10 (n div 10)) + n div 10)"
      using 1 False by simp
    have "(acc * 10 ^ length (digits10 (n div 10)) + n div 10) * 10 + n mod 10
          = acc * 10 ^ Suc (length (digits10 (n div 10))) + n" by (simp add: algebra_simps)
    then show ?thesis using False ih d
      by (simp add: digits10.simps [of n] digits_val_append digit_byte del: of_int_add)
  qed
qed

lemma digits10_head:
  "0 \<le> n \<Longrightarrow> \<exists>d ds. digits10 n = d # ds \<and> 0x30 \<le> uint d \<and> uint d \<le> 0x39"
proof (induction n rule: digits10.induct)
  case (1 n)
  show ?case
  proof (cases "n < 10")
    case True
    then show ?thesis using 1(2) by (simp add: digits10.simps [of n] digit_byte del: of_int_add)
  next
    case False
    then obtain d ds where "digits10 (n div 10) = d # ds" "0x30 \<le> uint d \<and> uint d \<le> 0x39"
    proof -
      have "0 \<le> n div 10" using 1(2) by simp
      then show ?thesis using 1(1) [OF False] that by blast
    qed
    then show ?thesis using False by (simp add: digits10.simps [of n])
  qed
qed

lemma parse_Itoa: "parse_dec (Itoa i) = Some i"
proof (cases "i < 0")
  case True
  obtain d ds where "digits10 (- i) = d # ds" using digits10_head [of "- i"] True by auto
  then show ?thesis using True digits_val_digits10 [of "- i" 0] by (simp add: Itoa_def parse_dec_def)
next
  case False
  obtain d ds where dd: "digits10 i = d # ds" "0x30 \<le> uint d \<and> uint d \<le> 0x39"
    using digits10_head [of i] False by auto
  then have "d \<noteq> 0x2D" by auto
  then show ?thesis using False dd digits_val_digits10 [of i 0] by (simp add: Itoa_def parse_dec_def)
qed

lemma digits10_chars: "0 \<le> n \<Longrightarrow> set (digits10 n) \<subseteq> set (tl decimal_chars)"
proof (induction n rule: digits10.induct)
  case (1 n)
  have d: "0 \<le> n mod 10" "n mod 10 < 10" by simp_all
  have dig: "0 \<le> k \<Longrightarrow> k < 10 \<Longrightarrow> (word_of_int (48 + k) :: byte) \<in> set (tl decimal_chars)" for k
  proof -
    assume "0 \<le> k" "k < 10"
    then have "k \<in> set [0..9]" by simp
    moreover have "list_all (\<lambda>k. (word_of_int (48 + k) :: byte) \<in> set (tl decimal_chars)) [0..9]"
      by code_simp
    ultimately show ?thesis by (simp add: list_all_iff)
  qed
  show ?case
  proof (cases "n < 10")
    case True
    then show ?thesis using 1(2) dig [of n] by (simp add: digits10.simps [of n] del: of_int_add)
  next
    case False
    then show ?thesis using 1 d dig by (simp add: digits10.simps [of n] del: of_int_add)
  qed
qed


lemma Itoa_chars: "set (Itoa i) \<subseteq> set decimal_chars"
proof -
  have "set (tl decimal_chars) \<subseteq> set decimal_chars" by (simp add: decimal_chars_def)
  then show ?thesis using digits10_chars [of "- i"] digits10_chars [of i]
    by (auto simp: Itoa_def decimal_chars_def)
qed

lemma Itoa_no_space: "0x20 \<notin> set (Itoa i)"
  using Itoa_chars [of i] by (auto simp: decimal_chars_def)

end
