(* ===== verification/Quote.thy ===== *)
theory Quote
  imports Utf8 Strconv
begin

text \<open>
  \<open>appendQuoted\<close> of src/logger.go (lines 58-122), the escaping primitive
  applied to the request target, the referrer and the user agent. One
  iteration of its loop is \<open>quoteStep\<close>: it reads one rune (a raw byte below
  \<open>RuneSelf\<close>, otherwise \<open>utf8.DecodeRuneInString\<close>), and returns the bytes
  appended and the width consumed. \<open>escapeNonPrint\<close> is the final
  \<open>switch\<close> for non-printable runes. The loop itself is \<open>appendQuoted\<close>, whose
  termination rests on every step consuming at least one byte.

  The lemmas show: each step consumes between one byte and the rest of the
  input; escaping leaves a string of printable runes other than quote and
  backslash unchanged; a valid rune that is not printable goes to the final
  \<open>switch\<close>; and a step appends at most six bytes per byte it consumes.
  \<open>QuoteSafety\<close> shows that the output can be read back.
\<close>

unbundle bit_operations_syntax

subsection \<open>The escaper\<close>

definition lowerhex :: gostring where
  "lowerhex = golit ''0123456789abcdef''"

text \<open>\<open>\x\<close> followed by the two hex digits of a byte (lines 69-71 and 102-104).\<close>

definition hexEscape :: "byte \<Rightarrow> gostring" where
  "hexEscape b = [bslash, of_char (CHR ''x''), lowerhex ! unat (drop_bit 4 b), lowerhex ! unat (b AND 0xF)]"

text \<open>\<open>for s := 4*(n-1); s >= 0; s -= 4 { lowerhex[r>>uint(s)&0xF] }\<close>.\<close>

definition hexDigits :: "nat \<Rightarrow> rune \<Rightarrow> gostring" where
  "hexDigits n r = map (\<lambda>k. lowerhex ! nat (drop_bit (4 * k) r AND 0xF)) (rev [0..<n])"

text \<open>
  The \<open>switch r\<close> of lines 84-118. A rune above \<open>MaxRune\<close> is replaced by
  \<open>0xFFFD\<close> and falls through to the \<open>\u\<close> case.
\<close>

definition escapeNonPrint :: "rune \<Rightarrow> byte \<Rightarrow> gostring" where
  "escapeNonPrint r s0 =
     (if r = 7 then bslash # golit ''a''
      else if r = 8 then bslash # golit ''b''
      else if r = 0xC then bslash # golit ''f''
      else if r = 0xA then bslash # golit ''n''
      else if r = 0xD then bslash # golit ''r''
      else if r = 9 then bslash # golit ''t''
      else if r = 0xB then bslash # golit ''v''
      else if r < 0x20 then hexEscape s0
      else if MaxRune < r \<or> r < 0x10000 then
        bslash # golit ''u'' @ hexDigits 4 (if MaxRune < r then 0xFFFD else r)
      else bslash # golit ''U'' @ hexDigits 8 r)"

text \<open>One iteration of the loop of lines 62-120: the bytes appended and the width.\<close>

fun quoteStep :: "print_tables \<Rightarrow> gostring \<Rightarrow> gostring \<times> nat" where
  "quoteStep tb [] = ([], 0)"
| "quoteStep tb (s0 # rest) =
     (let (r, width) =
        (if RuneSelf \<le> uint s0 then DecodeRuneInString (s0 # rest) else (uint s0, 1)) in
      if width = 1 \<and> r = RuneError then (hexEscape s0, width)
      else if r = 0x22 \<or> r = 0x5C then ([bslash, word_of_int r], width)
      else if IsPrint tb r then (EncodeRune r, width)
      else (escapeNonPrint r s0, width))"

text \<open>The loop of lines 62-120, with the output buffer as accumulator.\<close>

function appendQuoted :: "print_tables \<Rightarrow> gostring \<Rightarrow> gostring \<Rightarrow> gostring" where
  "appendQuoted tb buf s =
     (if s = [] then buf
      else (case quoteStep tb s of (out, width) \<Rightarrow> appendQuoted tb (buf @ out) (drop width s)))"
  by pat_completeness auto
termination
proof (relation "measure (\<lambda>(tb, buf, s). length s)")
  fix tb buf s out w
  assume "s \<noteq> []" "(out, w) = quoteStep tb s"
  then obtain s0 rest r where s: "s = s0 # rest" and
    d: "(if RuneSelf \<le> uint s0 then DecodeRuneInString (s0 # rest) else (uint s0, 1)) = (r, w)"
    by (cases s) (auto simp: Let_def split: if_splits prod.splits)
  then have "1 \<le> w" using decode_shape [of s0 rest r w] by (auto split: if_splits)
  with s show "((tb, buf @ out, drop w s), tb, buf, s) \<in> measure (\<lambda>(tb, buf, s). length s)"
    by simp
qed simp

text \<open>
  A rune that \<open>appendQuoted\<close> copies unchanged: valid, printable, and neither
  quote nor backslash.
\<close>

definition plain_rune :: "print_tables \<Rightarrow> rune \<Rightarrow> bool" where
  "plain_rune tb r \<longleftrightarrow> ValidRune r \<and> IsPrint tb r \<and> r \<noteq> 0x22 \<and> r \<noteq> 0x5C"

declare appendQuoted.simps [simp del]

subsection \<open>Steps consume input\<close>

lemma quoteStep_width:
  assumes "quoteStep tb (s0 # rest) = (out, w)"
  shows "1 \<le> w \<and> w \<le> Suc (length rest)"
proof -
  obtain r n where d: "(if RuneSelf \<le> uint s0 then DecodeRuneInString (s0 # rest) else (uint s0, 1)) = (r, n)"
    by fastforce
  have "n = w" using assms d by (simp add: Let_def split: if_splits)
  moreover have "1 \<le> n \<and> n \<le> Suc (length rest)"
    using d decode_shape [of s0 rest r n] by (auto split: if_splits)
  ultimately show ?thesis by simp
qed


lemma encode_high_bytes:
  assumes "ValidRune r" "0x80 \<le> r"
  shows "2 \<le> length (EncodeRune r) \<and> (\<forall>b \<in> set (EncodeRune r). 0x80 \<le> uint b)"
proof -
  consider "r \<le> 0x7FF" | "0x800 \<le> r" "r \<le> 0xFFFF" "r < surrogateMin \<or> surrogateMax < r"
    | "0x10000 \<le> r" "r \<le> MaxRune"
    using assms unfolding ValidRune_def by linarith
  then show ?thesis
  proof cases
    case 1
    have "r div 64 < 32" "0 \<le> r div 64" "0 \<le> r mod 64" "r mod 64 < 64" using 1 assms by simp_all
    with 1 assms show ?thesis by (simp add: encode_2 byte_val del: of_int_add)
  next
    case 2
    have "r div 4096 < 16" "0 \<le> r div 4096" "0 \<le> r div 64 mod 64" "r div 64 mod 64 < 64" "0 \<le> r mod 64" "r mod 64 < 64"
      using 2 by simp_all
    with 2 show ?thesis by (simp add: encode_3 byte_val del: of_int_add)
  next
    case 3
    have "r div 262144 < 8" "0 \<le> r div 262144" "0 \<le> r div 4096 mod 64" "r div 4096 mod 64 < 64"
      "0 \<le> r div 64 mod 64" "r div 64 mod 64 < 64" "0 \<le> r mod 64" "r mod 64 < 64"
      using 3 by (simp_all add: MaxRune_def)
    with 3 show ?thesis by (simp add: encode_4 byte_val del: of_int_add)
  qed
qed

lemma appendQuoted_Nil [simp]: "appendQuoted tb buf [] = buf"
  by (simp add: appendQuoted.simps)

lemma appendQuoted_step:
  assumes "s \<noteq> []" "quoteStep tb s = (out, w)"
  shows "appendQuoted tb buf s = appendQuoted tb (buf @ out) (drop w s)"
  using assms by (simp add: appendQuoted.simps)

lemma appendQuoted_append: "appendQuoted tb buf s = buf @ appendQuoted tb [] s"
proof (induction "length s" arbitrary: s buf rule: less_induct)
  case less
  show ?case
  proof (cases "s = []")
    case False
    obtain out w where q: "quoteStep tb s = (out, w)" by fastforce
    have "1 \<le> w" using q False quoteStep_width by (cases s) auto
    then have "length (drop w s) < length s" using False by simp
    moreover have "appendQuoted tb buf s = appendQuoted tb (buf @ out) (drop w s)"
      "appendQuoted tb [] s = appendQuoted tb out (drop w s)"
      using appendQuoted_step [OF False q] by simp_all
    ultimately show ?thesis using less by (metis append.assoc)
  qed simp
qed

lemma quoteStep_plain:
  assumes "plain_rune tb r"
  shows "quoteStep tb (EncodeRune r @ t) = (EncodeRune r, length (EncodeRune r))"
proof (cases "r < 0x80")
  case True
  have "0 \<le> r" using assms by (auto simp: plain_rune_def ValidRune_def)
  with True assms show ?thesis
    by (simp add: encode_1 byte_val plain_rune_def RuneSelf_def RuneError_def)
next
  case False
  have v: "ValidRune r" using assms by (simp add: plain_rune_def)
  with False obtain e0 es where e: "EncodeRune r = e0 # es" "0x80 \<le> uint e0" "es \<noteq> []"
    using encode_high_bytes [of r] by (cases "EncodeRune r") fastforce+
  have "DecodeRuneInString (EncodeRune r @ t) = (r, length (EncodeRune r))"
    using v by (rule utf8_roundtrip)
  with e assms show ?thesis by (simp add: plain_rune_def RuneSelf_def)
qed

lemma quoteStep_nonprint:
  assumes "ValidRune r" "\<not> IsPrint tb r"
  shows "quoteStep tb (EncodeRune r @ t) = (escapeNonPrint r (hd (EncodeRune r)), length (EncodeRune r))"
proof -
  have nq: "r \<noteq> 0x22 \<and> r \<noteq> 0x5C" using assms(2) by (auto simp: IsPrint_def)
  show ?thesis
  proof (cases "r < 0x80")
    case True
    have "0 \<le> r" using assms by (auto simp: ValidRune_def)
    with True nq assms(2) show ?thesis
      by (simp add: encode_1 byte_val RuneSelf_def RuneError_def)
  next
    case False
    with assms(1) obtain e0 es where e: "EncodeRune r = e0 # es" "0x80 \<le> uint e0" "es \<noteq> []"
      using encode_high_bytes [of r] by (cases "EncodeRune r") fastforce+
    have "DecodeRuneInString (EncodeRune r @ t) = (r, length (EncodeRune r))"
      using assms(1) by (rule utf8_roundtrip)
    with e nq assms(2) show ?thesis by (simp add: RuneSelf_def)
  qed
qed

theorem appendQuoted_plain:
  assumes "\<forall>r \<in> set rs. plain_rune tb r"
  shows "appendQuoted tb buf (concat (map EncodeRune rs)) = buf @ concat (map EncodeRune rs)"
  using assms
proof (induction rs arbitrary: buf)
  case (Cons r rs)
  have "EncodeRune r \<noteq> []" by (simp add: EncodeRune_def Let_def)
  then have "appendQuoted tb buf (EncodeRune r @ concat (map EncodeRune rs))
      = appendQuoted tb (buf @ EncodeRune r) (concat (map EncodeRune rs))"
    using quoteStep_plain [of tb r] Cons.prems by (simp add: appendQuoted_step)
  with Cons show ?case by simp
qed simp

subsection \<open>Growth of the escaped string\<close>

lemma EncodeRune_length: "length (EncodeRune r) \<le> 4"
  by (simp add: EncodeRune_def Let_def)

lemma escapeNonPrint_length:
  "length (escapeNonPrint r s0) \<le> 10 \<and> (r < 0x80 \<longrightarrow> length (escapeNonPrint r s0) \<le> 6)"
  by (simp add: escapeNonPrint_def hexEscape_def hexDigits_def MaxRune_def)

lemma quoteStep_length:
  assumes "quoteStep tb (s0 # rest) = (out, w)"
  shows "length out \<le> 6 * w"
proof -
  obtain r n where d: "(if RuneSelf \<le> uint s0 then DecodeRuneInString (s0 # rest) else (uint s0, 1)) = (r, n)"
    by fastforce
  have q: "(if n = 1 \<and> r = RuneError then (hexEscape s0, n)
      else if r = 0x22 \<or> r = 0x5C then ([bslash, word_of_int r], n)
      else if IsPrint tb r then (EncodeRune r, n) else (escapeNonPrint r s0, n)) = (out, w)"
    using assms d by (simp add: Let_def)
  have "n = 1 \<and> (r = RuneError \<or> r < 0x80) \<or> 2 \<le> n"
    using d decode_shape [of s0 rest r n] by (auto simp: RuneSelf_def split: if_splits)
  then show ?thesis
    using q EncodeRune_length [of r] escapeNonPrint_length [of r s0]
    by (auto simp: hexEscape_def RuneError_def split: if_splits)
qed

end
