(* ===== verification/TimeFmt.thy ===== *)
theory TimeFmt
  imports Strconv
begin

text \<open>
  \<open>ts.Format("02/Jan/2006:15:04:05 -0700")\<close>, the timestamp field of
  \<open>buildCommonLogLine\<close> (src/logger.go line 165). A Go \<open>time.Time\<close> is
  modelled by its Unix seconds and the offset, in seconds east of UTC, of its
  location at that instant; \<open>Format\<close> shifts by the offset and splits the local
  seconds into a proleptic Gregorian date and a time of day. The calendar
  conversion is the standard days-to-civil computation (Go's \<open>absDate\<close>
  computes the same function by another route). \<open>appendInt\<close> is Go's
  zero-padding integer printer of package \<open>time\<close>, and the zone is printed
  from \<open>offset / 60\<close> with Go's truncating division.
\<close>

record gotime =
  unix_sec :: int
  zone_offset :: int

subsection \<open>Pieces of the layout\<close>

definition tdiv :: "int \<Rightarrow> int \<Rightarrow> int" where
  "tdiv a b = sgn a * sgn b * (\<bar>a\<bar> div \<bar>b\<bar>)"

definition tmod :: "int \<Rightarrow> int \<Rightarrow> int" where
  "tmod a b = a - b * tdiv a b"

text \<open>
  \<open>appendInt(b, x, width)\<close>: a minus sign for a negative value, then the
  magnitude padded with zeros to \<open>width\<close> digits.
\<close>

definition appendInt :: "gostring \<Rightarrow> int \<Rightarrow> nat \<Rightarrow> gostring" where
  "appendInt b x width =
     (let ds = digits10 \<bar>x\<bar> in
      b @ (if x < 0 then golit ''-'' else []) @ replicate (width - length ds) (of_char CHR ''0'') @ ds)"

definition shortMonthNames :: "gostring list" where
  "shortMonthNames = map golit [''Jan'', ''Feb'', ''Mar'', ''Apr'', ''May'', ''Jun'',
                                ''Jul'', ''Aug'', ''Sep'', ''Oct'', ''Nov'', ''Dec'']"

text \<open>Days since 1970-01-01 to (year, month, day).\<close>

definition civil_from_days :: "int \<Rightarrow> int \<times> int \<times> int" where
  "civil_from_days z =
     (let z = z + 719468;
          era = z div 146097;
          doe = z - era * 146097;
          yoe = (doe - doe div 1460 + doe div 36524 - doe div 146096) div 365;
          y = yoe + era * 400;
          doy = doe - (365 * yoe + yoe div 4 - yoe div 100);
          mp = (5 * doy + 2) div 153;
          d = doy - (153 * mp + 2) div 5 + 1;
          m = (if mp < 10 then mp + 3 else mp - 9)
      in (if m \<le> 2 then y + 1 else y, m, d))"

text \<open>The \<open>-0700\<close> element: sign, hours and minutes of \<open>offset / 60\<close>.\<close>

definition formatNumTZ :: "gostring \<Rightarrow> int \<Rightarrow> gostring" where
  "formatNumTZ b offset =
     (let zone = tdiv offset 60 in
      if zone < 0 then appendInt (appendInt (b @ golit ''-'') (tdiv (- zone) 60) 2) (tmod (- zone) 60) 2
      else appendInt (appendInt (b @ golit ''+'') (tdiv zone 60) 2) (tmod zone 60) 2)"

subsection \<open>Format\<close>

definition FormatCLF :: "gotime \<Rightarrow> gostring" where
  "FormatCLF t =
     (let local = unix_sec t + zone_offset t;
          days = local div 86400; secs = local mod 86400;
          (year, month, day) = civil_from_days days
      in formatNumTZ
           (appendInt (appendInt (appendInt (appendInt
              (appendInt [] day 2 @ golit ''/'' @ shortMonthNames ! nat (month - 1) @ golit ''/'')
              year 4 @ golit '':'') (secs div 3600) 2 @ golit '':'') (secs mod 3600 div 60) 2 @ golit '':'')
              (secs mod 60) 2 @ golit '' '')
           (zone_offset t))"

subsection \<open>The calendar arithmetic, named\<close>

text \<open>
  The pieces of \<open>civil_from_days\<close> that its bounds are about: the year of the
  era (\<open>gy\<close>, with its numerator \<open>yearnum\<close>) and the first day of a year of
  the era (\<open>Fy\<close>). \<open>clf_chars\<close> is the alphabet of the timestamp.
\<close>

definition gy :: "int \<Rightarrow> int" where
  "gy doe = (doe - doe div 1460 + doe div 36524 - doe div 146096) div 365"
definition Fy :: "int \<Rightarrow> int" where
  "Fy y = 365 * y + y div 4 - y div 100"

definition yearnum :: "int \<Rightarrow> int" where
  "yearnum d = d - d div 1460 + d div 36524 - d div 146096"

definition clf_chars :: gostring where
  "clf_chars = decimal_chars @ golit ''/: +'' @ concat shortMonthNames"

subsection \<open>Bounds of the date\<close>

lemma gy_table: "list_all (\<lambda>y. gy (Fy y) = y \<and> gy (Fy (y + 1) - 1) = y) [0..399]"
  by code_simp

lemma yearnum_step: "yearnum d \<le> yearnum (d + 1)"
proof -
  have "(146096::int) = 36524 * 4" by simp
  then have "(d + 1) mod 146096 = 0 \<Longrightarrow> (d + 1) mod 36524 = 0"
    by (metis dvd_mult2 dvd_refl mod_0_imp_dvd dvd_imp_mod_0 dvd_trans)
  then show ?thesis
    unfolding yearnum_def by (simp add: div_succ_int [of 1460 d] div_succ_int [of 36524 d] div_succ_int [of 146096 d])
qed

lemma yearnum_mono_nat: "yearnum d \<le> yearnum (d + int k)"
proof (induction k)
  case (Suc k)
  have "yearnum (d + int k) \<le> yearnum (d + int k + 1)" by (rule yearnum_step)
  moreover have "d + int (Suc k) = d + int k + 1" by simp
  ultimately show ?case using Suc by (metis order_trans)
qed simp

lemma yearnum_mono: "d \<le> e \<Longrightarrow> yearnum d \<le> yearnum e"
  using yearnum_mono_nat [of d "nat (e - d)"] by simp

lemma gy_mono: "d \<le> e \<Longrightarrow> gy d \<le> gy e"
  unfolding gy_def yearnum_def [symmetric] by (intro zdiv_mono1 yearnum_mono) simp_all

lemma Fy_step: "Fy (y + 1) - Fy y \<le> 366"
  unfolding Fy_def by (simp add: div_succ_int)

lemma gy_Fy:
  assumes "0 \<le> y" "y \<le> 399"
  shows "gy (Fy y) = y \<and> gy (Fy (y + 1) - 1) = y"
proof -
  have "y \<in> set [0..399]" using assms by simp
  then show ?thesis using gy_table by (simp add: list_all_iff)
qed

lemma doy_bounds:
  assumes "0 \<le> doe" "doe \<le> 146096"
  shows "0 \<le> doe - Fy (gy doe) \<and> doe - Fy (gy doe) \<le> 365"
proof (cases "doe = 146096")
  case True
  then show ?thesis by (simp add: gy_def Fy_def)
next
  case False
  have "Fy 0 \<le> doe" "doe < Fy (int 400)" using assms False by (simp_all add: Fy_def)
  then obtain y where y: "0 \<le> y" "y < 400" "Fy y \<le> doe" "doe < Fy (y + 1)"
    using bracket_int [of Fy doe 400] by auto
  have "gy (Fy y) \<le> gy doe" "gy doe \<le> gy (Fy (y + 1) - 1)"
    using y by (simp_all add: gy_mono)
  then have "gy doe = y" using gy_Fy [of y] y by simp
  then show ?thesis using y Fy_step [of y] by simp
qed

lemma month_day_table:
  "list_all (\<lambda>doy. let mp = (5 * doy + 2) div 153; d = doy - (153 * mp + 2) div 5 + 1;
                        m = (if mp < 10 then mp + 3 else mp - 9)
                    in 1 \<le> m \<and> m \<le> 12 \<and> 1 \<le> d \<and> d \<le> 31) [0..365]"
  by code_simp

lemma civil_from_days_bounds:
  assumes "civil_from_days z = (y, m, d)"
  shows "1 \<le> m \<and> m \<le> 12 \<and> 1 \<le> d \<and> d \<le> 31"
proof -
  define doe where "doe = (z + 719468) mod 146097"
  have doe: "0 \<le> doe" "doe \<le> 146096" by (simp_all add: doe_def)
  have e: "z + 719468 - (z + 719468) div 146097 * 146097 = doe"
    by (simp add: doe_def minus_div_mult_eq_mod [symmetric] algebra_simps)
  define doy where "doy = doe - Fy (gy doe)"
  have doy: "doy \<in> set [0..365]" using doy_bounds [OF doe] by (simp add: doy_def)
  have "civil_from_days z =
          (let mp = (5 * doy + 2) div 153; d = doy - (153 * mp + 2) div 5 + 1;
               m = (if mp < 10 then mp + 3 else mp - 9)
           in (if m \<le> 2 then gy doe + (z + 719468) div 146097 * 400 + 1 else gy doe + (z + 719468) div 146097 * 400, m, d))"
    unfolding civil_from_days_def Let_def e doy_def gy_def Fy_def by simp
  then show ?thesis using assms month_day_table doy by (auto simp: list_all_iff Let_def)
qed

subsection \<open>The alphabet of the timestamp\<close>

lemma appendInt_chars: "set (appendInt b x w) \<subseteq> set b \<union> set decimal_chars"
proof -
  have "set (digits10 \<bar>x\<bar>) \<subseteq> set decimal_chars"
    using digits10_chars [of "\<bar>x\<bar>"] by (auto simp: decimal_chars_def)
  then show ?thesis by (auto simp: appendInt_def Let_def decimal_chars_def)
qed

lemma append_sub: "set a \<subseteq> S \<Longrightarrow> set b \<subseteq> S \<Longrightarrow> set (a @ b) \<subseteq> S"
  by simp

lemma appendInt_sub: "set b \<subseteq> S \<Longrightarrow> set decimal_chars \<subseteq> S \<Longrightarrow> set (appendInt b x w) \<subseteq> S"
  using appendInt_chars [of b x w] by blast

lemma decimal_clf: "set decimal_chars \<subseteq> set clf_chars"
  by (auto simp: clf_chars_def)

lemma formatNumTZ_sub:
  assumes "set b \<subseteq> set clf_chars"
  shows "set (formatNumTZ b off) \<subseteq> set clf_chars"
proof -
  have m: "set (golit ''-'') \<subseteq> set clf_chars" "set (golit ''+'') \<subseteq> set clf_chars"
    by (simp_all add: clf_chars_def decimal_chars_def)
  show ?thesis
  proof (cases "tdiv off 60 < 0")
    case True
    then show ?thesis unfolding formatNumTZ_def Let_def
      by (simp only: if_True) (intro appendInt_sub append_sub decimal_clf m assms)
  next
    case False
    then show ?thesis unfolding formatNumTZ_def Let_def
      by (simp only: if_False) (intro appendInt_sub append_sub decimal_clf m assms)
  qed
qed

lemma month_name_chars:
  assumes "1 \<le> m" "m \<le> 12"
  shows "set (shortMonthNames ! nat (m - 1)) \<subseteq> set clf_chars"
proof -
  have "nat (m - 1) < length shortMonthNames" using assms by (simp add: shortMonthNames_def)
  then have "shortMonthNames ! nat (m - 1) \<in> set shortMonthNames" by (rule nth_mem)
  then show ?thesis by (auto simp: clf_chars_def)
qed

lemma FormatCLF_chars: "set (FormatCLF t) \<subseteq> set clf_chars"
proof -
  obtain y m d where c: "civil_from_days ((unix_sec t + zone_offset t) div 86400) = (y, m, d)"
    by (cases "civil_from_days ((unix_sec t + zone_offset t) div 86400)") auto
  have b: "1 \<le> m \<and> m \<le> 12 \<and> 1 \<le> d \<and> d \<le> 31" using c by (rule civil_from_days_bounds)
  have p: "set (golit ''/'') \<subseteq> set clf_chars" "set (golit '':'') \<subseteq> set clf_chars"
    "set (golit '' '') \<subseteq> set clf_chars" "set ([] :: gostring) \<subseteq> set clf_chars"
    by (simp_all add: clf_chars_def)
  have mn: "set (shortMonthNames ! nat (m - 1)) \<subseteq> set clf_chars" using b month_name_chars by simp
  show ?thesis
    unfolding FormatCLF_def Let_def c prod.case
    by (intro formatNumTZ_sub append_sub appendInt_sub p mn decimal_clf)
qed

lemma FormatCLF_no_rbrack: "(0x5D :: byte) \<notin> set (FormatCLF t)"
proof -
  have "(0x5D :: byte) \<notin> set clf_chars" by (simp add: clf_chars_def decimal_chars_def shortMonthNames_def)
  then show ?thesis using FormatCLF_chars [of t] by blast
qed

end
