(* ===== verification/Duration.thy ===== *)
theory Duration
  imports Complex_Main Strconv
begin

text \<open>
  \<open>prettyDuration\<close> (src/logger.go lines 124-128):
  \<open>ms := float64(dur.Nanoseconds()) / float64(1e6); fmt.Sprintf("%.3fms", ms)\<close>.
  The float arithmetic is written out exactly over \<open>rat\<close>: \<open>rn53\<close> rounds a
  rational to the nearest binary64 value (53-bit significand, ties to even;
  the values here, at most \<open>2^63\<close> and at least \<open>10^-6\<close> in magnitude,
  are far from the subnormal and overflow ranges), applied once for the
  \<open>int64\<close> to \<open>float64\<close> conversion and once for the division. \<open>%.3f\<close>
  prints the exact decimal value of the float rounded to three decimals, ties
  to even (strconv's \<open>bigFtoa\<close> and \<open>decimal.Round\<close>), with a minus sign
  when the float is negative.

  The lemmas: the alphabet of the field, and that for a latency of a whole
  number of microseconds below \<open>2^53\<close> ns (104 days) the two roundings never
  show: the field is the exact value \<open>k/1000\<close> ms to three decimals.
\<close>

subsection \<open>Binary64 rounding\<close>

text \<open>\<open>nbits n\<close>: the number of binary digits of a positive integer.\<close>

function nbits :: "int \<Rightarrow> int" where
  "nbits n = (if n \<le> 0 then 0 else 1 + nbits (n div 2))"
  by pat_completeness auto
termination
  by (relation "measure nat") auto

declare nbits.simps [simp del]

definition pow2 :: "int \<Rightarrow> rat" where
  "pow2 e = (if 0 \<le> e then 2 ^ nat e else 1 / 2 ^ nat (- e))"

text \<open>\<open>floor_log2 x\<close> is the exponent \<open>e\<close> with \<open>2^e \<le> x < 2^(e+1)\<close>, for \<open>x > 0\<close>.\<close>

definition floor_log2 :: "rat \<Rightarrow> int" where
  "floor_log2 x =
     (let (p, q) = quotient_of x; e = nbits p - nbits q in
      if pow2 e \<le> x then e else e - 1)"

definition round_half_even :: "rat \<Rightarrow> int" where
  "round_half_even x =
     (let f = \<lfloor>x\<rfloor>; d = x - of_int f in
      if d < 1/2 then f else if 1/2 < d then f + 1 else if even f then f else f + 1)"

definition rn53 :: "rat \<Rightarrow> rat" where
  "rn53 x =
     (if x = 0 then 0
      else let a = \<bar>x\<bar>; e = floor_log2 a in
           sgn x * of_int (round_half_even (a * pow2 (52 - e))) * pow2 (e - 52))"

subsection \<open>prettyDuration\<close>

text \<open>\<open>%.3f\<close> of a float value \<open>q\<close>.\<close>

definition formatF3 :: "rat \<Rightarrow> gostring" where
  "formatF3 q =
     (let m = round_half_even (\<bar>q\<bar> * 1000); frac = digits10 (m mod 1000) in
      (if q < 0 then golit ''-'' else []) @ digits10 (m div 1000) @ golit ''.''
        @ replicate (3 - length frac) (of_char CHR ''0'') @ frac)"

definition prettyDuration :: "int \<Rightarrow> gostring" where
  "prettyDuration dur =
     (let ms = rn53 (rn53 (of_int dur) / 1000000) in formatF3 ms @ golit ''ms'')"

text \<open>The bytes \<open>prettyDuration\<close> can print.\<close>

definition duration_chars :: gostring where
  "duration_chars = decimal_chars @ golit ''.ms''"

subsection \<open>Lemmas\<close>

lemma round_half_even_nonneg: "0 \<le> x \<Longrightarrow> 0 \<le> round_half_even x"
  by (simp add: round_half_even_def Let_def)

lemma prettyDuration_chars: "set (prettyDuration d) \<subseteq> set duration_chars"
proof -
  define q where "q = rn53 (rn53 (of_int d) / 1000000)"
  define m where "m = round_half_even (\<bar>q\<bar> * 1000)"
  have "0 \<le> m" unfolding m_def by (rule round_half_even_nonneg) simp
  then have "0 \<le> m div 1000" by simp
  then have "set (digits10 (m div 1000)) \<subseteq> set decimal_chars" "set (digits10 (m mod 1000)) \<subseteq> set decimal_chars"
    using digits10_chars [of "m div 1000"] digits10_chars [of "m mod 1000"]
    by (auto simp: decimal_chars_def)
  then show ?thesis
    unfolding prettyDuration_def formatF3_def Let_def q_def [symmetric] m_def [symmetric]
    by (auto simp: duration_chars_def decimal_chars_def)
qed

lemma prettyDuration_no_space_nl: "0x20 \<notin> set (prettyDuration d) \<and> 0x0A \<notin> set (prettyDuration d)"
proof -
  have "0x20 \<notin> set duration_chars" "0x0A \<notin> set duration_chars"
    by (simp_all add: duration_chars_def decimal_chars_def)
  then show ?thesis using prettyDuration_chars [of d] by blast
qed

subsection \<open>Exactness of the float arithmetic\<close>

text \<open>
  \<open>floor_log2\<close> brackets its argument between consecutive powers of two,
  \<open>rn53\<close> has a relative error of at most \<open>2^-53\<close> and is exact on
  integers below \<open>2^53\<close>; hence a latency that is a whole number of
  microseconds prints as its exact decimal value in milliseconds.
\<close>

lemma pow2_powi: "pow2 e = 2 powi e"
proof (cases "0 \<le> e")
  case True
  then have "(2::rat) powi e = 2 ^ nat e" using power_int_of_nat [of "2::rat" "nat e"] by simp
  then show ?thesis using True by (simp add: pow2_def)
next
  case False
  then have "(2::rat) powi e = inverse (2 powi int (nat (- e)))"
    by (simp add: power_int_minus [symmetric])
  moreover have "(2::rat) powi int (nat (- e)) = 2 ^ nat (- e)"
    using power_int_of_nat [of "2::rat" "nat (- e)"] by simp
  ultimately show ?thesis using False by (simp add: pow2_def divide_inverse)
qed

lemma pow2_add: "pow2 (a + b) = pow2 a * pow2 b"
  by (simp add: pow2_powi power_int_add)

lemma pow2_pos: "0 < pow2 e"
  by (simp add: pow2_powi)

lemma pow2_mono: "a \<le> b \<Longrightarrow> pow2 a \<le> pow2 b"
  by (simp add: pow2_powi power_int_increasing)

lemma pow2_strict_mono: "a < b \<Longrightarrow> pow2 a < pow2 b"
  by (simp add: pow2_powi power_int_strict_increasing)

lemma nbits_bounds: "0 < n \<Longrightarrow> 1 \<le> nbits n \<and> 2 ^ nat (nbits n - 1) \<le> n \<and> n < 2 ^ nat (nbits n)"
proof (induction n rule: nbits.induct)
  case (1 n)
  show ?case
  proof (cases "n div 2 = 0")
    case True
    then have "n = 1" using 1(2) by linarith
    moreover have "nbits 1 = 1" using nbits.simps [of 1] nbits.simps [of 0] by simp
    ultimately show ?thesis by simp
  next
    case False
    then have p: "0 < n div 2" using 1(2) by (simp add: pos_imp_zdiv_pos_iff)
    then have ih: "1 \<le> nbits (n div 2) \<and> 2 ^ nat (nbits (n div 2) - 1) \<le> n div 2 \<and> n div 2 < 2 ^ nat (nbits (n div 2))"
      using 1 by simp
    have e: "nbits n = 1 + nbits (n div 2)" using 1(2) by (simp add: nbits.simps [of n])
    define j where "j = nat (nbits (n div 2) - 1)"
    have k: "nbits (n div 2) = int j + 1" using ih j_def by simp
    have ns: "nat (nbits (n div 2)) = Suc j" using k by simp
    define K :: int where "K = 2 ^ j"
    have lo: "K \<le> n div 2" using ih unfolding K_def j_def by simp
    have hi: "n div 2 < 2 * K" using ih unfolding K_def ns by simp
    have "n = 2 * (n div 2) + n mod 2" "0 \<le> n mod 2" "n mod 2 < 2" by simp_all
    then have "2 * K \<le> n" "n < 2 * (2 * K)" using lo hi by linarith+
    moreover have "nat (nbits n - 1) = Suc j" "nat (nbits n) = Suc (Suc j)" using e k by simp_all
    ultimately show ?thesis using e k unfolding K_def by simp
  qed
qed

lemma pow2_nbits: "0 < n \<Longrightarrow> pow2 (nbits n - 1) \<le> of_int n \<and> of_int n < pow2 (nbits n)"
proof -
  assume "0 < n"
  then have b: "1 \<le> nbits n" "2 ^ nat (nbits n - 1) \<le> n" "n < 2 ^ nat (nbits n)" using nbits_bounds by blast+
  have "(2::rat) ^ nat (nbits n - 1) \<le> of_int n" "of_int n < (2::rat) ^ nat (nbits n)"
    using b(2,3) by (metis of_int_le_iff of_int_numeral of_int_power, metis of_int_less_iff of_int_numeral of_int_power)
  then show ?thesis using b(1) by (simp add: pow2_def)
qed

lemma floor_log2_bounds:
  assumes "0 < x"
  shows "pow2 (floor_log2 x) \<le> x \<and> x < pow2 (floor_log2 x + 1)"
proof -
  obtain p q where pq: "quotient_of x = (p, q)" by fastforce
  have q0: "0 < q" using pq by (rule quotient_of_denom_pos)
  have xpq: "x = of_int p / of_int q" using pq by (rule quotient_of_div)
  then have xq: "x * of_int q = of_int p" using q0 by simp
  have p0: "0 < p" using assms xpq q0 by (simp add: zero_less_divide_iff)
  define e where "e = nbits p - nbits q"
  have bp: "pow2 (nbits p - 1) \<le> of_int p" "of_int p < pow2 (nbits p)" using pow2_nbits [OF p0] by simp_all
  have bq: "pow2 (nbits q - 1) \<le> of_int q" "of_int q < pow2 (nbits q)" using pow2_nbits [OF q0] by simp_all
  have "pow2 (e - 1) * of_int q < pow2 (e - 1) * pow2 (nbits q)"
    using bq(2) pow2_pos [of "e - 1"] by simp
  also have "\<dots> = pow2 (nbits p - 1)" by (simp add: pow2_add [symmetric] e_def)
  finally have "pow2 (e - 1) * of_int q < x * of_int q" using bp(1) xq by simp
  then have lo: "pow2 (e - 1) < x" using q0 by simp
  have "x * of_int q < pow2 (e + 1) * pow2 (nbits q - 1)"
    using bp(2) xq by (simp add: pow2_add [symmetric] e_def)
  also have "\<dots> \<le> pow2 (e + 1) * of_int q" using bq(1) pow2_pos [of "e + 1"] by simp
  finally have hi: "x < pow2 (e + 1)" using q0 by simp
  show ?thesis
  proof (cases "pow2 e \<le> x")
    case True
    then show ?thesis using hi by (simp add: floor_log2_def pq e_def [symmetric])
  next
    case False
    then show ?thesis using lo by (simp add: floor_log2_def pq e_def [symmetric])
  qed
qed

lemma round_half_even_error: "\<bar>of_int (round_half_even y) - y\<bar> \<le> 1 / 2"
proof -
  have "of_int \<lfloor>y\<rfloor> \<le> y" "y < of_int \<lfloor>y\<rfloor> + 1" by linarith+
  then show ?thesis by (auto simp: round_half_even_def Let_def abs_if split: if_splits; linarith)
qed

lemma round_half_even_near: "\<bar>y - of_int n\<bar> < 1 / 2 \<Longrightarrow> round_half_even y = n"
proof -
  assume a: "\<bar>y - of_int n\<bar> < 1 / 2"
  have "\<bar>of_int (round_half_even y) - y\<bar> \<le> 1 / 2" by (rule round_half_even_error)
  with a have "\<bar>of_int (round_half_even y) - of_int n\<bar> < (1::rat)" by linarith
  then have "\<bar>round_half_even y - n\<bar> < 1" by linarith
  then show ?thesis by linarith
qed

lemma rn53_nonneg: "0 \<le> x \<Longrightarrow> 0 \<le> rn53 x"
  using round_half_even_nonneg [of "\<bar>x\<bar> * pow2 (52 - floor_log2 \<bar>x\<bar>)"] pow2_pos
  by (auto simp: rn53_def Let_def less_imp_le)

lemma rn53_error: "\<bar>rn53 x - x\<bar> \<le> \<bar>x\<bar> * pow2 (- 53)"
proof (cases "x = 0")
  case False
  define a where "a = \<bar>x\<bar>"
  define e where "e = floor_log2 a"
  define y where "y = a * pow2 (52 - e)"
  have a0: "0 < a" using False by (simp add: a_def)
  have le: "pow2 e \<le> a" using floor_log2_bounds [OF a0] by (simp add: e_def)
  have ay: "a = y * pow2 (e - 52)" by (simp add: y_def pow2_add [symmetric] pow2_def)
  define sg where "sg = sgn x"
  have "x = sg * a" by (simp add: a_def sg_def sgn_mult_abs)
  then have x2: "x = sg * (y * pow2 (e - 52))" using ay by simp
  have r: "rn53 x = sg * of_int (round_half_even y) * pow2 (e - 52)"
    using False by (simp add: rn53_def Let_def a_def [symmetric] e_def [symmetric] y_def [symmetric] sg_def)
  have "rn53 x - x = sg * ((of_int (round_half_even y) - y) * pow2 (e - 52))"
    by (subst r, subst x2) (simp add: algebra_simps)
  then have "\<bar>rn53 x - x\<bar> = \<bar>sg\<bar> * \<bar>of_int (round_half_even y) - y\<bar> * pow2 (e - 52)"
    using pow2_pos [of "e - 52"] by (simp add: abs_mult)
  also have "\<dots> = \<bar>of_int (round_half_even y) - y\<bar> * pow2 (e - 52)"
    using False by (simp add: sg_def abs_sgn_eq)
  also have "\<dots> \<le> 1 / 2 * pow2 (e - 52)"
    using round_half_even_error [of y] pow2_pos [of "e - 52"] by (simp add: mult_right_mono)
  also have "\<dots> = pow2 e * pow2 (- 53)"
  proof -
    have "1 / 2 * pow2 (e - 52) = pow2 (- 1) * pow2 (e - 52)" by (simp add: pow2_def)
    also have "\<dots> = pow2 (- 1 + (e - 52))" by (rule pow2_add [symmetric])
    also have "- 1 + (e - 52) = e + - 53" by simp
    finally show ?thesis by (simp only: pow2_add)
  qed
  also have "\<dots> \<le> a * pow2 (- 53)" using le pow2_pos [of "- 53"] by simp
  finally show ?thesis by (simp add: a_def)
qed (simp add: rn53_def)

lemma rn53_int:
  assumes "\<bar>n\<bar> < 2 ^ 53"
  shows "rn53 (of_int n) = of_int n"
proof (cases "n = 0")
  case False
  define a :: rat where "a = of_int \<bar>n\<bar>"
  define e where "e = floor_log2 a"
  have a0: "0 < a" using False by (simp add: a_def)
  have "pow2 e \<le> a" using floor_log2_bounds [OF a0] by (simp add: e_def)
  moreover have "a < pow2 53" using assms by (simp add: a_def pow2_def)
  ultimately have "pow2 e < pow2 53" by simp
  then have e53: "e \<le> 52" using pow2_mono [of 53 e] by linarith
  define m where "m = \<bar>n\<bar> * 2 ^ nat (52 - e)"
  have y: "a * pow2 (52 - e) = of_int m" using e53 by (simp add: a_def m_def pow2_def)
  have r: "round_half_even (of_int m) = m" by (rule round_half_even_near) simp
  have ma: "of_int m * pow2 (e - 52) = a"
    using y [symmetric] by (simp add: pow2_add [symmetric] pow2_def)
  have ab: "\<bar>rat_of_int n\<bar> = a" by (simp add: a_def)
  have "rn53 (of_int n) = sgn (rat_of_int n) * of_int (round_half_even (a * pow2 (52 - e))) * pow2 (e - 52)"
    unfolding rn53_def Let_def ab e_def using False by simp
  also have "\<dots> = sgn (rat_of_int n) * a" by (simp only: y r mult.assoc ma)
  also have "\<dots> = of_int n" by (simp add: ab [symmetric] sgn_mult_abs)
  finally show ?thesis .
qed (simp add: rn53_def)

lemma prettyDuration_micros:
  assumes "0 \<le> k" "1000 * k < 2 ^ 53"
  shows "prettyDuration (1000 * k) = formatF3 (of_int k / 1000) @ golit ''ms''"
proof -
  define v :: rat where "v = of_int k / 1000"
  define q where "q = rn53 v"
  have "\<bar>1000 * k\<bar> < 2 ^ 53" using assms by simp
  then have i: "rn53 (1000 * rat_of_int k) / 1000000 = v" using rn53_int [of "1000 * k"] by (simp add: v_def)
  have v0: "0 \<le> v" using assms by (simp add: v_def)
  then have q0: "0 \<le> q" by (simp add: q_def rn53_nonneg)
  have "\<bar>q - v\<bar> \<le> v * pow2 (- 53)" using rn53_error [of v] v0 by (simp add: q_def)
  then have "\<bar>q * 1000 - of_int k\<bar> \<le> of_int k * pow2 (- 53)" by (simp add: v_def abs_if split: if_splits)
  moreover have "of_int k * pow2 (- 53) < (1 / 2 :: rat)"
  proof -
    have "rat_of_int (1000 * k) < 2 ^ 53" using assms(2) by (metis of_int_less_iff of_int_numeral of_int_power)
    then show ?thesis by (simp add: pow2_def)
  qed
  ultimately have "round_half_even (\<bar>q\<bar> * 1000) = k" using q0 by (intro round_half_even_near) simp
  moreover have "round_half_even (\<bar>v\<bar> * 1000) = k" using v0 by (intro round_half_even_near) (simp add: v_def)
  ultimately have "formatF3 q = formatF3 v" using q0 v0 by (simp add: formatF3_def Let_def)
  then show ?thesis by (simp add: prettyDuration_def Let_def i q_def v_def [symmetric])
qed

lemma rn53_dyadic:
  assumes "\<bar>n\<bar> < 2 ^ 53"
  shows "rn53 (of_int n * pow2 k) = of_int n * pow2 k"
proof (cases "n = 0")
  case False
  define a :: rat where "a = of_int \<bar>n\<bar> * pow2 k"
  define e where "e = floor_log2 a"
  have a0: "0 < a" using False pow2_pos [of k] by (simp add: a_def)
  have "pow2 e \<le> a" using floor_log2_bounds [OF a0] by (simp add: e_def)
  moreover have "a < pow2 (53 + k)"
  proof -
    have "rat_of_int \<bar>n\<bar> < pow2 53" using assms by (simp add: pow2_def)
    then show ?thesis using pow2_pos [of k] by (simp add: a_def pow2_add)
  qed
  ultimately have "pow2 e < pow2 (53 + k)" by simp
  then have ek: "e \<le> 52 + k" using pow2_mono [of "53 + k" e] by linarith
  define m where "m = \<bar>n\<bar> * 2 ^ nat (52 + k - e)"
  have "a * pow2 (52 - e) = of_int \<bar>n\<bar> * pow2 (k + (52 - e))" by (simp add: a_def pow2_add)
  also have "\<dots> = of_int m" using ek by (simp add: m_def pow2_def algebra_simps)
  finally have y: "a * pow2 (52 - e) = of_int m" .
  have r: "round_half_even (of_int m) = m" by (rule round_half_even_near) simp
  have "of_int m * pow2 (e - 52) = a * (pow2 (52 - e) * pow2 (e - 52))" using y by (simp add: mult.assoc)
  also have "\<dots> = a * pow2 (52 - e + (e - 52))" by (simp only: pow2_add)
  finally have ma: "of_int m * pow2 (e - 52) = a" by (simp add: pow2_def)
  have ab: "\<bar>rat_of_int n * pow2 k\<bar> = a" using pow2_pos [of k] by (simp add: a_def abs_mult)
  have "rn53 (of_int n * pow2 k) = sgn (rat_of_int n * pow2 k) * of_int (round_half_even (a * pow2 (52 - e))) * pow2 (e - 52)"
    unfolding rn53_def Let_def ab e_def using False pow2_pos [of k] by simp
  also have "\<dots> = sgn (rat_of_int n * pow2 k) * a" by (simp only: y r mult.assoc ma)
  also have "\<dots> = of_int n * pow2 k" by (simp only: ab [symmetric] sgn_mult_abs)
  finally show ?thesis .
qed (simp add: rn53_def)

lemma round_half_even_tie: "round_half_even (of_int m + 1 / 2) = (if even m then m else m + 1)"
proof -
  have "\<lfloor>(of_int m + 1 / 2 :: rat)\<rfloor> = m" by (rule floor_unique) simp_all
  then show ?thesis by (simp add: round_half_even_def Let_def)
qed

lemma formatF3_cong:
  "0 \<le> q \<Longrightarrow> 0 \<le> q' \<Longrightarrow> round_half_even (q * 1000) = round_half_even (q' * 1000) \<Longrightarrow> formatF3 q = formatF3 q'"
  by (simp add: formatF3_def Let_def)

end
