(* ===== verification/UrlEscape.thy ===== *)
theory UrlEscape
  imports Prelude
begin

text \<open>
  The percent-encoding of Go's \<open>net/url\<close> behind \<open>URL.EscapedPath\<close>, which
  \<open>URL.RequestURI\<close> calls when the logger reconstructs a request target
  (src/logger.go, line 157). \<open>shouldEscape\<close> is the library's table of the
  bytes each part of a URL must escape, for every \<open>encoding\<close> mode;
  \<open>escape\<close> writes a byte that must be escaped as \<open>%\<close> and two upper-case
  hex digits, with the library's fast path that returns the input when no
  byte needs escaping. \<open>unescape\<close> is modelled for the path mode, the only
  one \<open>EscapedPath\<close> uses: a pass that rejects a malformed \<open>%\<close> with an
  \<open>EscapeError\<close> (an error value of \<open>url_error\<close>), then a pass that decodes.
  \<open>validEncodedPath\<close> accepts a raw path the escaper may keep.

  The lemmas show that the escaper always agrees with its slow path, that
  \<open>unescape\<close> inverts \<open>escape\<close> in path mode, and the alphabet of an
  escaped path: printable ASCII without \<open>?\<close>.
\<close>

unbundle bit_operations_syntax

subsection \<open>Definitions\<close>

datatype encoding = encodePath | encodePathSegment | encodeHost | encodeZone
  | encodeUserPassword | encodeQueryComponent | encodeFragment

datatype url_error = EscapeError gostring | InvalidHostError gostring

text \<open>
  \<open>shouldEscape(c, mode)\<close>: alphanumerics are never escaped; hosts and zones
  keep their sub-delimiters, the colon, brackets and \<open><>"\<close>; the unreserved
  marks \<open>-_.~\<close> are kept; each mode keeps some of the reserved characters
  \<open>$&+,/:;=?@\<close>; fragments also keep \<open>!()*\<close>; everything else is
  escaped.
\<close>

definition shouldEscape :: "byte \<Rightarrow> encoding \<Rightarrow> bool" where
  "shouldEscape c mode =
     (if (0x41 \<le> c \<and> c \<le> 0x5A) \<or> (0x61 \<le> c \<and> c \<le> 0x7A) \<or> (0x30 \<le> c \<and> c \<le> 0x39) then False
      else if (mode = encodeHost \<or> mode = encodeZone) \<and>
              c \<in> set [0x21, 0x24, 0x26, 0x27, 0x28, 0x29, 0x2A, 0x2B, 0x2C, 0x3B, 0x3D, 0x3A, 0x5B, 0x5D,
                       0x3C, 0x3E, 0x22] then False
      else if c \<in> set (golit ''-_.~'') then False
      else if c \<in> set (golit ''$&+,/:;=?@'') then
        (case mode of
           encodePath \<Rightarrow> c = 0x3F
         | encodePathSegment \<Rightarrow> c \<in> set (golit ''/;,?'')
         | encodeUserPassword \<Rightarrow> c \<in> set (golit ''@/?:'')
         | encodeQueryComponent \<Rightarrow> True
         | encodeFragment \<Rightarrow> False
         | _ \<Rightarrow> True)
      else if mode = encodeFragment \<and> c \<in> set (golit ''!()*'') then False
      else True)"

definition upperhex :: gostring where
  "upperhex = golit ''0123456789ABCDEF''"

text \<open>The bytes \<open>escape\<close> writes for one input byte (its second loop).\<close>

definition escByte :: "encoding \<Rightarrow> byte \<Rightarrow> gostring" where
  "escByte mode c =
     (if c = 0x20 \<and> mode = encodeQueryComponent then [0x2B]
      else if shouldEscape c mode then [0x25, upperhex ! unat (drop_bit 4 c), upperhex ! unat (c AND 0xF)]
      else [c])"

text \<open>
  \<open>escape(s, mode)\<close>: the first loop counts the bytes to escape and returns
  \<open>s\<close> itself when there are none.
\<close>

definition escape :: "gostring \<Rightarrow> encoding \<Rightarrow> gostring" where
  "escape s mode =
     (if \<not> list_ex (\<lambda>c. shouldEscape c mode) s then s else concat (map (escByte mode) s))"

definition ishex :: "byte \<Rightarrow> bool" where
  "ishex c \<longleftrightarrow> (0x30 \<le> c \<and> c \<le> 0x39) \<or> (0x61 \<le> c \<and> c \<le> 0x66) \<or> (0x41 \<le> c \<and> c \<le> 0x46)"

definition unhex :: "byte \<Rightarrow> byte" where
  "unhex c =
     (if 0x30 \<le> c \<and> c \<le> 0x39 then c - 0x30
      else if 0x61 \<le> c \<and> c \<le> 0x66 then c - 0x61 + 10
      else if 0x41 \<le> c \<and> c \<le> 0x46 then c - 0x41 + 10
      else 0)"

text \<open>
  The first loop of \<open>unescape(s, encodePath)\<close>: \<open>Some\<close> of the text of the
  \<open>EscapeError\<close> (at most three bytes from the bad \<open>%\<close>) or \<open>None\<close>. The
  host and zone checks of the loop do not apply to the path mode.
\<close>

fun checkPct :: "gostring \<Rightarrow> gostring option" where
  "checkPct [] = None"
| "checkPct (c # s) =
     (if c = 0x25 then
        (case s of
           h1 # h2 # rest \<Rightarrow> if ishex h1 \<and> ishex h2 then checkPct rest else Some (take 3 (c # s))
         | _ \<Rightarrow> Some (take 3 (c # s)))
      else checkPct s)"

text \<open>The second loop: \<open>%XX\<close> becomes \<open>unhex(X)<<4 | unhex(X)\<close>; \<open>+\<close> stays.\<close>

fun decodePct :: "gostring \<Rightarrow> gostring" where
  "decodePct (c # h1 # h2 # rest) =
     (if c = 0x25 then (push_bit 4 (unhex h1) OR unhex h2) # decodePct rest
      else c # decodePct (h1 # h2 # rest))"
| "decodePct s = s"

definition unescapePath :: "gostring \<Rightarrow> url_error + gostring" where
  "unescapePath s =
     (case checkPct s of
        Some e \<Rightarrow> Inl (EscapeError e)
      | None \<Rightarrow> Inr (if 0x25 \<notin> set s then s else decodePct s))"

definition validEncodedPath :: "gostring \<Rightarrow> bool" where
  "validEncodedPath s =
     list_all (\<lambda>c. c \<in> set [0x21, 0x24, 0x26, 0x27, 0x28, 0x29, 0x2A, 0x2B, 0x2C, 0x3B, 0x3D, 0x3A, 0x40,
                              0x5B, 0x5D, 0x25]
                   \<or> \<not> shouldEscape c encodePath) s"

text \<open>The bytes of an escaped path: printable ASCII other than \<open>?\<close>.\<close>

definition path_char :: "byte \<Rightarrow> bool" where
  "path_char c \<longleftrightarrow> 0x21 \<le> c \<and> c \<le> 0x7E \<and> c \<noteq> 0x3F"

subsection \<open>Facts about single bytes\<close>

lemma byte_mask4: "(0xF :: byte) = mask 4"
  by (simp add: mask_eq_exp_minus_1)

lemma byte_nibbles_join: "push_bit 4 (drop_bit 4 c) OR (c AND 0xF) = (c :: byte)"
  unfolding byte_mask4 by (rule bit_eqI) (auto simp: bit_simps)

lemma upperhex_table: "k < 16 \<Longrightarrow> ishex (upperhex ! k) \<and> unhex (upperhex ! k) = of_nat k \<and> path_char (upperhex ! k)"
proof -
  have "list_all (\<lambda>k. ishex (upperhex ! k) \<and> unhex (upperhex ! k) = of_nat k \<and> path_char (upperhex ! k)) [0..<16]"
    by code_simp
  moreover assume "k < 16"
  ultimately show ?thesis by (simp add: list_all_iff)
qed

lemma nibbles_small: "unat (drop_bit 4 (c :: byte)) < 16 \<and> unat (c AND 0xF) < 16"
proof -
  have "unat c < 256" using unsigned_less [of c] by simp
  then show ?thesis
    by (simp add: byte_mask4 unat_div unat_mod drop_bit_eq_div take_bit_eq_mask [symmetric] take_bit_eq_mod)
qed

lemma kept_path_char: "\<not> shouldEscape c encodePath \<Longrightarrow> path_char c"
  by (auto simp: shouldEscape_def path_char_def word_le_def split: if_splits)

lemma space_escaped: "shouldEscape 0x20 mode"
  by (cases mode) (simp_all add: shouldEscape_def)

lemma pct_escaped: "shouldEscape 0x25 encodePath"
  by (simp add: shouldEscape_def)

lemma escByte_keep: "\<not> shouldEscape c mode \<Longrightarrow> escByte mode c = [c]"
  using space_escaped [of mode] by (auto simp: escByte_def)

lemma escByte_ne: "escByte mode c \<noteq> []"
  by (simp add: escByte_def)

subsection \<open>The escaper\<close>

lemma escape_map: "escape s mode = concat (map (escByte mode) s)"
proof (cases "list_ex (\<lambda>c. shouldEscape c mode) s")
  case False
  then have "concat (map (escByte mode) s) = s"
    by (induction s) (simp_all add: escByte_keep)
  with False show ?thesis by (simp add: escape_def)
qed (simp add: escape_def)

lemma escape_Nil_iff: "escape s mode = [] \<longleftrightarrow> s = []"
  by (simp add: escape_map escByte_ne)

subsection \<open>Unescaping inverts escaping\<close>

lemma decodePct_Cons: "c \<noteq> 0x25 \<Longrightarrow> decodePct (c # t) = c # decodePct t"
  by (cases t rule: decodePct.cases) simp_all

lemma decodePct_no_pct: "0x25 \<notin> set s \<Longrightarrow> decodePct s = s"
  by (induction s rule: decodePct.induct) simp_all

lemma escByte_path_decode:
  "checkPct (escByte encodePath c @ t) = checkPct t \<and> decodePct (escByte encodePath c @ t) = c # decodePct t"
proof (cases "shouldEscape c encodePath")
  case True
  have d: "ishex (upperhex ! unat (drop_bit 4 c)) \<and> unhex (upperhex ! unat (drop_bit 4 c)) = drop_bit 4 c"
    "ishex (upperhex ! unat (c AND 0xF)) \<and> unhex (upperhex ! unat (c AND 0xF)) = c AND 0xF"
    using upperhex_table nibbles_small [of c] by simp_all
  then show ?thesis using True by (simp add: escByte_def byte_nibbles_join)
next
  case False
  then have "c \<noteq> 0x25" using pct_escaped by auto
  then show ?thesis using False by (simp add: escByte_keep decodePct_Cons)
qed

lemma escape_path_decode: "checkPct (escape s encodePath) = None \<and> decodePct (escape s encodePath) = s"
proof (induction s)
  case (Cons c s)
  then show ?case using escByte_path_decode [of c "concat (map (escByte encodePath) s)"]
    by (simp add: escape_map)
qed (simp add: escape_def)

theorem unescape_escape_path: "unescapePath (escape s encodePath) = Inr s"
proof -
  have "checkPct (escape s encodePath) = None" "decodePct (escape s encodePath) = s"
    using escape_path_decode [of s] by simp_all
  then show ?thesis using decodePct_no_pct [of "escape s encodePath"] by (auto simp: unescapePath_def)
qed

lemma unescapePath_Nil: "unescapePath s = Inr [] \<Longrightarrow> s = []"
proof -
  have "decodePct s = [] \<longleftrightarrow> s = []" by (induction s rule: decodePct.induct) simp_all
  then show "unescapePath s = Inr [] \<Longrightarrow> s = []" by (auto simp: unescapePath_def split: option.splits if_splits)
qed

lemma unescapePath_star: "unescapePath (golit ''*'') = Inr (golit ''*'')"
  by (simp add: unescapePath_def)

subsection \<open>The alphabet of an escaped path\<close>

lemma escape_path_chars: "list_all path_char (escape s encodePath)"
proof -
  have "list_all path_char (escByte encodePath c)" for c
    using upperhex_table nibbles_small [of c] kept_path_char [of c]
    by (simp add: escByte_def) (simp add: path_char_def)
  then show ?thesis by (simp add: escape_map list_all_iff)
qed

lemma validEncodedPath_chars: "validEncodedPath s \<Longrightarrow> list_all path_char s"
proof -
  have ok: "path_char c" if "c \<in> set [0x21, 0x24, 0x26, 0x27, 0x28, 0x29, 0x2A, 0x2B, 0x2C, 0x3B, 0x3D, 0x3A, 0x40,
                                       0x5B, 0x5D, 0x25]" for c :: byte
    using that by (auto simp: path_char_def)
  assume "validEncodedPath s"
  then show ?thesis unfolding validEncodedPath_def list_all_iff using ok kept_path_char by blast
qed

end
