(* ===== verification/Netx.thy ===== *)
theory Netx
  imports UrlEscape
begin

text \<open>
  The parts of Go's \<open>net\<close>, \<open>net/url\<close> and \<open>net/http\<close> that
  \<open>buildCommonLogLine\<close> and \<open>writeCombinedLog\<close> read: \<open>net.SplitHostPort\<close>
  (with its errors as values of \<open>addr_error\<close>), the URL fields and
  \<open>URL.RequestURI\<close> with \<open>URL.EscapedPath\<close>, and \<open>Header.Get\<close> (with
  \<open>textproto.CanonicalMIMEHeaderKey\<close>) behind \<open>Request.Referer\<close> and
  \<open>Request.UserAgent\<close>. Byte searches return Go's \<open>-1\<close> for "not found".
  The lemmas characterise the searches; show \<open>SplitHostPort\<close> splitting
  a plain \<open>host:port\<close> and a bracketed \<open>[host]:port\<close>, and failing with
  \<open>MissingPort\<close> without a colon; show that the path part of the
  reconstructed target (\<open>RequestURI\<close>, with \<open>EscapedPath\<close>) has no \<open>?\<close>
  and decodes to the URL's path; and that key canonicalization is idempotent,
  maps keys equal up to ASCII case (\<open>lowerAscii\<close>) to the same key, and
  leaves the keys the logger reads (\<open>Referer\<close>, \<open>User-Agent\<close>) unchanged.
\<close>

subsection \<open>Byte search\<close>

fun IndexByte :: "gostring \<Rightarrow> byte \<Rightarrow> int" where
  "IndexByte [] c = -1"
| "IndexByte (b # s) c = (if b = c then 0 else (let i = IndexByte s c in if i < 0 then -1 else i + 1))"

definition LastIndexByte :: "gostring \<Rightarrow> byte \<Rightarrow> int" where
  "LastIndexByte s c = (let i = IndexByte (rev s) c in if i < 0 then -1 else int (length s) - 1 - i)"

subsection \<open>SplitHostPort\<close>

abbreviation colon :: byte where "colon \<equiv> 0x3A"
abbreviation lbrack :: byte where "lbrack \<equiv> 0x5B"
abbreviation rbrack :: byte where "rbrack \<equiv> 0x5D"

datatype addr_error = MissingPort | TooManyColons | MissingRBracket | UnexpectedLBracket
  | UnexpectedRBracket

text \<open>
  The final checks of \<open>SplitHostPort\<close>: no \<open>[\<close> from position \<open>j\<close> on, no
  \<open>]\<close> from position \<open>k\<close> on; then the port is everything after the last colon.
\<close>

definition splitTail :: "gostring \<Rightarrow> gostring \<Rightarrow> nat \<Rightarrow> nat \<Rightarrow> nat \<Rightarrow> addr_error + gostring \<times> gostring" where
  "splitTail hostport host i j k =
     (if 0 \<le> IndexByte (drop j hostport) lbrack then Inl UnexpectedLBracket
      else if 0 \<le> IndexByte (drop k hostport) rbrack then Inl UnexpectedRBracket
      else Inr (host, drop (Suc i) hostport))"

definition SplitHostPort :: "gostring \<Rightarrow> addr_error + gostring \<times> gostring" where
  "SplitHostPort hostport =
     (let i = LastIndexByte hostport colon in
      if i < 0 then Inl MissingPort
      else if hostport ! 0 = lbrack then
        (let e = IndexByte hostport rbrack in
         if e < 0 then Inl MissingRBracket
         else if e + 1 = int (length hostport) then Inl MissingPort
         else if e + 1 = i then
           splitTail hostport (take (nat e - 1) (drop 1 hostport)) (nat i) 1 (nat e + 1)
         else if hostport ! nat (e + 1) = colon then Inl TooManyColons
         else Inl MissingPort)
      else
        (let host = take (nat i) hostport in
         if 0 \<le> IndexByte host colon then Inl TooManyColons
         else splitTail hostport host (nat i) 0 0))"

subsection \<open>URLs and requests\<close>

text \<open>
  The fields of \<open>url.URL\<close> that \<open>RequestURI\<close> and the logger read. \<open>User\<close>
  is the user name of the \<open>*Userinfo\<close>, \<open>None\<close> for a nil pointer;
  \<open>Path\<close> is the decoded path and \<open>RawPath\<close> its original encoding, if
  any.
\<close>

record url =
  Scheme :: gostring
  Opaque :: gostring
  User :: "gostring option"
  Path :: gostring
  RawPath :: gostring
  RawQuery :: gostring
  ForceQuery :: bool

text \<open>
  \<open>URL.EscapedPath()\<close>: the raw path when it is a valid encoding of the
  path, \<open>*\<close> unescaped, otherwise the path escaped in path mode.
\<close>

definition EscapedPath :: "url \<Rightarrow> gostring" where
  "EscapedPath u =
     (if RawPath u \<noteq> [] \<and> validEncodedPath (RawPath u) \<and> unescapePath (RawPath u) = Inr (Path u)
      then RawPath u
      else if Path u = golit ''*'' then golit ''*''
      else escape (Path u) encodePath)"

definition HasPrefix :: "gostring \<Rightarrow> gostring \<Rightarrow> bool" where
  "HasPrefix s p = (take (length p) s = p)"

definition RequestURI :: "url \<Rightarrow> gostring" where
  "RequestURI u =
     (let result =
        (if Opaque u = [] then (if EscapedPath u = [] then golit ''/'' else EscapedPath u)
         else if HasPrefix (Opaque u) (golit ''//'') then Scheme u @ golit '':'' @ Opaque u
         else Opaque u)
      in if ForceQuery u \<or> RawQuery u \<noteq> [] then result @ golit ''?'' @ RawQuery u else result)"

text \<open>
  \<open>textproto.CanonicalMIMEHeaderKey\<close>: a key made of token bytes is
  rewritten with an upper-case letter first and after every \<open>-\<close> and
  lower case elsewhere; a key with a byte outside the token table is left
  alone. \<open>quickCheck\<close> is its first loop, which returns the key itself when
  it is already canonical or meets a non-token byte first; \<open>canonMap\<close> the
  rewriting loop of \<open>canonicalMIMEHeaderKey\<close>. (The interning of common
  keys returns an equal string and is not modelled.)
\<close>

definition isToken :: "byte \<Rightarrow> bool" where
  "isToken c \<longleftrightarrow>
     (0x30 \<le> c \<and> c \<le> 0x39) \<or> (0x41 \<le> c \<and> c \<le> 0x5A) \<or> (0x61 \<le> c \<and> c \<le> 0x7A) \<or>
     c \<in> set (golit ''!#$%&*+-.^_|~'') \<or> c = 0x27 \<or> c = 0x60"

definition isLowerAscii :: "byte \<Rightarrow> bool" where
  "isLowerAscii c \<longleftrightarrow> 0x61 \<le> c \<and> c \<le> 0x7A"

definition isUpperAscii :: "byte \<Rightarrow> bool" where
  "isUpperAscii c \<longleftrightarrow> 0x41 \<le> c \<and> c \<le> 0x5A"

text \<open>ASCII case folding: the equivalence of keys that \<open>Header.Get\<close> does not distinguish.\<close>

definition lowerAscii :: "byte \<Rightarrow> byte" where
  "lowerAscii c = (if isUpperAscii c then c + 0x20 else c)"

fun quickCheck :: "bool \<Rightarrow> gostring \<Rightarrow> bool" where
  "quickCheck upper [] = False"
| "quickCheck upper (c # s) =
     (if \<not> isToken c then False
      else if upper \<and> isLowerAscii c then True
      else if \<not> upper \<and> isUpperAscii c then True
      else quickCheck (c = 0x2D) s)"

fun canonMap :: "bool \<Rightarrow> gostring \<Rightarrow> gostring" where
  "canonMap upper [] = []"
| "canonMap upper (c # s) =
     (let c = (if upper \<and> isLowerAscii c then c - 0x20
               else if \<not> upper \<and> isUpperAscii c then c + 0x20 else c)
      in c # canonMap (c = 0x2D) s)"

definition canonicalMIMEHeaderKey :: "gostring \<Rightarrow> gostring" where
  "canonicalMIMEHeaderKey a = (if \<not> list_all isToken a then a else canonMap True a)"

definition CanonicalMIMEHeaderKey :: "gostring \<Rightarrow> gostring" where
  "CanonicalMIMEHeaderKey s = (if quickCheck True s then canonicalMIMEHeaderKey s else s)"

text \<open>
  An \<open>http.Header\<close>: \<open>Get\<close> canonicalizes the key and returns the first
  value, or \<open>""\<close>.
\<close>

type_synonym header = "gostring \<Rightarrow> gostring list option"

definition HeaderGet :: "header \<Rightarrow> gostring \<Rightarrow> gostring" where
  "HeaderGet h k = (case h (CanonicalMIMEHeaderKey k) of Some (v # _) \<Rightarrow> v | _ \<Rightarrow> [])"

record request =
  Method :: gostring
  URL :: url
  Proto :: gostring
  ProtoMajor :: int
  Header :: header
  Host :: gostring
  RemoteAddr :: gostring
  ReqURI :: gostring

definition Referer :: "request \<Rightarrow> gostring" where
  "Referer r = HeaderGet (Header r) (golit ''Referer'')"

definition UserAgent :: "request \<Rightarrow> gostring" where
  "UserAgent r = HeaderGet (Header r) (golit ''User-Agent'')"

subsection \<open>Lemmas\<close>

lemma IndexByte_neg_iff: "IndexByte s c < 0 \<longleftrightarrow> c \<notin> set s"
  by (induction s) (auto simp: Let_def)

lemma IndexByte_append_notin:
  "c \<notin> set xs \<Longrightarrow> IndexByte (xs @ c # ys) c = int (length xs)"
  by (induction xs) (auto simp: Let_def)

lemma LastIndexByte_split:
  "c \<notin> set ys \<Longrightarrow> LastIndexByte (xs @ c # ys) c = int (length xs)"
proof -
  assume "c \<notin> set ys"
  then have "IndexByte (rev ys @ c # rev xs) c = int (length ys)"
    using IndexByte_append_notin [of c "rev ys" "rev xs"] by simp
  then show ?thesis by (simp add: LastIndexByte_def)
qed

lemma LastIndexByte_none: "c \<notin> set s \<Longrightarrow> LastIndexByte s c = -1"
  by (simp add: LastIndexByte_def IndexByte_neg_iff)

lemma SplitHostPort_simple:
  assumes "colon \<notin> set h" "colon \<notin> set p" "lbrack \<notin> set (h @ p)" "rbrack \<notin> set (h @ p)"
  shows "SplitHostPort (h @ colon # p) = Inr (h, p)"
proof -
  have i: "LastIndexByte (h @ colon # p) colon = int (length h)"
    using assms(2) by (rule LastIndexByte_split)
  have b: "(h @ colon # p) ! 0 \<noteq> lbrack" using assms(3) by (cases h) auto
  have "IndexByte h colon < 0" using assms(1) by (simp add: IndexByte_neg_iff)
  moreover have "IndexByte (h @ colon # p) lbrack < 0" "IndexByte (h @ colon # p) rbrack < 0"
    using assms(3,4) by (simp_all add: IndexByte_neg_iff)
  ultimately show ?thesis using i b by (simp add: SplitHostPort_def splitTail_def)
qed

lemma SplitHostPort_no_colon: "colon \<notin> set a \<Longrightarrow> SplitHostPort a = Inl MissingPort"
  by (simp add: SplitHostPort_def LastIndexByte_none)

lemma SplitHostPort_bracketed:
  assumes "lbrack \<notin> set h" "rbrack \<notin> set h" "colon \<notin> set p" "lbrack \<notin> set p" "rbrack \<notin> set p"
  shows "SplitHostPort (lbrack # h @ rbrack # colon # p) = Inr (h, p)"
proof -
  let ?hp = "lbrack # h @ rbrack # colon # p"
  have i: "LastIndexByte ?hp colon = int (length h) + 2"
    using LastIndexByte_split [of colon p "lbrack # h @ [rbrack]"] assms(3) by simp
  have e: "IndexByte ?hp rbrack = int (length h) + 1"
    using IndexByte_append_notin [of rbrack "lbrack # h" "colon # p"] assms(2) by simp
  have "IndexByte (drop 1 ?hp) lbrack < 0" "IndexByte (drop (length h + 2) ?hp) rbrack < 0"
    using assms by (simp_all add: IndexByte_neg_iff)
  then show ?thesis using i e
    by (simp add: SplitHostPort_def splitTail_def nat_add_distrib)
qed

subsection \<open>The reconstructed request target\<close>

lemma EscapedPath_unescape: "unescapePath (EscapedPath u) = Inr (Path u)"
  by (simp add: EscapedPath_def unescape_escape_path unescapePath_star [simplified])

lemma EscapedPath_chars: "list_all path_char (EscapedPath u)"
  by (auto simp: EscapedPath_def escape_path_chars validEncodedPath_chars path_char_def)

lemma EscapedPath_Nil_iff: "EscapedPath u = [] \<longleftrightarrow> Path u = []"
  by (auto simp: EscapedPath_def escape_Nil_iff dest: unescapePath_Nil)

lemma RequestURI_path:
  assumes "Opaque u = []" "Path u \<noteq> []"
  shows "takeWhile (\<lambda>c. c \<noteq> 0x3F) (RequestURI u) = EscapedPath u"
proof -
  have "\<forall>c \<in> set (EscapedPath u). c \<noteq> 0x3F"
    using EscapedPath_chars [of u] by (auto simp: list_all_iff path_char_def)
  moreover have "EscapedPath u \<noteq> []" using assms(2) by (simp add: EscapedPath_Nil_iff)
  ultimately show ?thesis using assms(1) by (simp add: RequestURI_def Let_def takeWhile_append2)
qed

subsection \<open>Header keys\<close>

lemma canon_byte:
  assumes "isToken c"
  shows "isToken (if u \<and> isLowerAscii c then c - 0x20 else if \<not> u \<and> isUpperAscii c then c + 0x20 else c) \<and>
         \<not> (u \<and> isLowerAscii (if u \<and> isLowerAscii c then c - 0x20 else if \<not> u \<and> isUpperAscii c then c + 0x20 else c)) \<and>
         \<not> (\<not> u \<and> isUpperAscii (if u \<and> isLowerAscii c then c - 0x20 else if \<not> u \<and> isUpperAscii c then c + 0x20 else c))"
  using assms
  by (auto simp: isToken_def isLowerAscii_def isUpperAscii_def word_le_def uint_sub_if' uint_plus_if')

lemma canonMap_canonical:
  "list_all isToken a \<Longrightarrow> list_all isToken (canonMap u a) \<and> \<not> quickCheck u (canonMap u a)"
proof (induction a arbitrary: u)
  case (Cons c a)
  then show ?case using canon_byte [of c u] by (simp add: Let_def)
qed simp

theorem CanonicalMIMEHeaderKey_idem:
  "CanonicalMIMEHeaderKey (CanonicalMIMEHeaderKey s) = CanonicalMIMEHeaderKey s"
  using canonMap_canonical [of s True]
  by (auto simp: CanonicalMIMEHeaderKey_def canonicalMIMEHeaderKey_def)

lemma fold_byte:
  "isUpperAscii c \<Longrightarrow> isLowerAscii (c + 0x20) \<and> c + 0x20 - 0x20 = c \<and> \<not> isUpperAscii (c + 0x20) \<and> c + 0x20 \<noteq> 0x2D"
  by (auto simp: isLowerAscii_def isUpperAscii_def word_le_def uint_plus_if')

lemma canonMap_fold: "canonMap u (map lowerAscii s) = canonMap u s"
proof (induction s arbitrary: u)
  case (Cons c s)
  show ?case
  proof (cases "isUpperAscii c")
    case True
    have "\<not> isLowerAscii c" using True by (auto simp: isLowerAscii_def isUpperAscii_def word_le_def)
    moreover have "lowerAscii c = c + 0x20" using True by (simp add: lowerAscii_def)
    ultimately show ?thesis using Cons fold_byte [OF True] True by (cases u) (simp_all add: Let_def)
  next
    case False
    then have "lowerAscii c = c" by (simp add: lowerAscii_def)
    then show ?thesis using Cons by (simp add: Let_def)
  qed
qed simp

lemma canonMap_self: "list_all isToken s \<Longrightarrow> \<not> quickCheck u s \<Longrightarrow> canonMap u s = s"
  by (induction s arbitrary: u) (auto simp: Let_def split: if_splits)

lemma Canonical_tokens: "list_all isToken s \<Longrightarrow> CanonicalMIMEHeaderKey s = canonMap True s"
  using canonMap_self [of s True] by (auto simp: CanonicalMIMEHeaderKey_def canonicalMIMEHeaderKey_def)

lemma canonical_keys:
  "CanonicalMIMEHeaderKey (golit ''Referer'') = golit ''Referer'' \<and>
   CanonicalMIMEHeaderKey (golit ''User-Agent'') = golit ''User-Agent''"
  by code_simp

lemma canonical_key_lower: "CanonicalMIMEHeaderKey (golit ''user-agent'') = golit ''User-Agent''"
  by code_simp

end
