(* ===== verification/LogLine.thy ===== *)
theory LogLine
  imports Quote TimeFmt Duration Netx
begin

text \<open>
  The line builders of src/logger.go. \<open>buildCommonLogLine\<close> (lines 133-179)
  selects the user name (\<open>logUsername\<close>, lines 134-140), the host
  (\<open>logHost\<close>, lines 142-146) and the request target (\<open>logURI\<close>, lines
  148-158), then appends the fields to one buffer, the target through
  \<open>appendQuoted\<close>. \<open>writeCommonLog\<close> and \<open>writeCombinedLog\<close> (lines
  184-200) finish the line and hand it to the writer in a single \<open>Write\<close>
  call; a writer is modelled by the list of the byte strings written to it, in
  order. The write's result is discarded, as in the source. The lemmas give
  the request target of each branch of \<open>logURI\<close> (CONNECT over HTTP/2 with
  and without an authority, otherwise the request URI or the URL's) and the
  host of each outcome of \<open>SplitHostPort\<close>, and the shape of both lines
  with the escaper's buffer split off (\<open>appendQuoted_append\<close>).
\<close>

subsection \<open>Field selection\<close>

definition logUsername :: "url \<Rightarrow> gostring" where
  "logUsername u =
     (case User u of
        Some name \<Rightarrow> if name \<noteq> [] then name else golit ''-''
      | None \<Rightarrow> golit ''-'')"

definition logHost :: "gostring \<Rightarrow> gostring" where
  "logHost remoteAddr =
     (case SplitHostPort remoteAddr of Inr (host, _) \<Rightarrow> host | Inl _ \<Rightarrow> remoteAddr)"

definition logURI :: "request \<Rightarrow> gostring" where
  "logURI req =
     (let uri = ReqURI req;
          uri = (if ProtoMajor req = 2 \<and> Method req = golit ''CONNECT'' then Host req else uri)
      in if uri = [] then RequestURI (URL req) else uri)"

subsection \<open>The lines\<close>

definition buildCommonLogLine ::
  "print_tables \<Rightarrow> request \<Rightarrow> gotime \<Rightarrow> int \<Rightarrow> int \<Rightarrow> int \<Rightarrow> gostring" where
  "buildCommonLogLine tb req ts status sz delay =
     (let username = logUsername (URL req);
          host = logHost (RemoteAddr req);
          uri = logURI req;
          buf = host @ golit '' - '' @ username @ golit '' ['' @ FormatCLF ts @ golit ''] \"''
                @ Method req @ golit '' '';
          buf = appendQuoted tb buf uri
      in buf @ golit '' '' @ Proto req @ golit ''\" '' @ Itoa status @ golit '' '' @ Itoa sz
           @ golit '' '' @ prettyDuration delay)"

type_synonym writer = "gostring list"

definition writeCommonLog ::
  "print_tables \<Rightarrow> writer \<Rightarrow> request \<Rightarrow> gotime \<Rightarrow> int \<Rightarrow> int \<Rightarrow> int \<Rightarrow> writer" where
  "writeCommonLog tb w req ts status sz delay =
     (let buf = buildCommonLogLine tb req ts status sz delay;
          buf = buf @ [0x0A]
      in w @ [buf])"

definition writeCombinedLog ::
  "print_tables \<Rightarrow> writer \<Rightarrow> request \<Rightarrow> gotime \<Rightarrow> int \<Rightarrow> int \<Rightarrow> int \<Rightarrow> writer" where
  "writeCombinedLog tb w req ts status sz delay =
     (let buf = buildCommonLogLine tb req ts status sz delay;
          buf = buf @ golit '' \"'';
          buf = appendQuoted tb buf (Referer req);
          buf = buf @ golit ''\" \"'';
          buf = appendQuoted tb buf (UserAgent req);
          buf = buf @ [dquote, 0x0A]
      in w @ [buf])"

subsection \<open>Field selection lemmas\<close>

lemma logURI_connect:
  "ProtoMajor req = 2 \<Longrightarrow> Method req = golit ''CONNECT'' \<Longrightarrow> Host req \<noteq> [] \<Longrightarrow> logURI req = Host req"
  by (simp add: logURI_def)

lemma logURI_connect_no_host:
  "ProtoMajor req = 2 \<Longrightarrow> Method req = golit ''CONNECT'' \<Longrightarrow> Host req = [] \<Longrightarrow>
   logURI req = RequestURI (URL req)"
  by (simp add: logURI_def)

lemma logURI_plain:
  "\<not> (ProtoMajor req = 2 \<and> Method req = golit ''CONNECT'') \<Longrightarrow>
   logURI req = (if ReqURI req = [] then RequestURI (URL req) else ReqURI req)"
  by (auto simp: logURI_def)

lemma logHost_simple:
  "colon \<notin> set h \<Longrightarrow> colon \<notin> set p \<Longrightarrow> lbrack \<notin> set (h @ p) \<Longrightarrow> rbrack \<notin> set (h @ p) \<Longrightarrow>
   logHost (h @ colon # p) = h"
  by (simp add: logHost_def SplitHostPort_simple)

lemma logHost_no_port: "colon \<notin> set a \<Longrightarrow> logHost a = a"
  by (simp add: logHost_def SplitHostPort_no_colon)

subsection \<open>The shape of a line\<close>

lemma buildCommonLogLine_shape:
  "buildCommonLogLine tb req ts st sz d =
     logHost (RemoteAddr req) @ golit '' - '' @ logUsername (URL req) @ golit '' ['' @ FormatCLF ts @
     golit ''] '' @ [dquote] @ Method req @ golit '' '' @ appendQuoted tb [] (logURI req) @ golit '' '' @ Proto req @
     [dquote] @ golit '' '' @ Itoa st @ golit '' '' @ Itoa sz @ golit '' '' @ prettyDuration d"
  unfolding buildCommonLogLine_def Let_def by (subst appendQuoted_append) simp


lemma writeCombinedLog_shape:
  "last (writeCombinedLog tb w req ts st sz d) =
     buildCommonLogLine tb req ts st sz d @ [0x20, dquote] @ appendQuoted tb [] (Referer req) @
     [dquote, 0x20, dquote] @ appendQuoted tb [] (UserAgent req) @ [dquote, 0x0A]"
  unfolding writeCombinedLog_def Let_def
  by (subst appendQuoted_append, subst (2) appendQuoted_append) simp

end
