(* ===== verification/Middleware.thy ===== *)
theory Middleware
  imports LogLine
begin

text \<open>
  The two middlewares of src/logger.go, \<open>CombinedLogger\<close> (lines 30-41) and
  \<open>CommonLogger\<close> (lines 45-56), and what they call outside the file:
  chi's \<open>WrapResponseWriter\<close> (the \<open>basicWriter\<close> of chi's
  middleware/wrap_writer.go), \<open>time.Now\<close> and \<open>Time.Sub\<close>.

  The downstream handler is arbitrary Go code; what the logger can observe of
  it is the sequence of calls it makes on the response writer it is given and
  the time it takes. A handler is therefore a script (\<open>handler_op list\<close>)
  chosen per request: \<open>WriteHeader\<close> and \<open>Write\<close> calls, \<open>io.Copy\<close> of a
  body into the writer (\<open>HCopy\<close>), and the passing of
  time (\<open>HElapse\<close>, both clocks advance) or a step of the wall clock alone
  (\<open>HStepWall\<close>, as NTP does). The wrapped \<open>http.ResponseWriter\<close> is an
  interface: a record of its methods over the writer's state \<open>'w\<close>, so
  every lemma holds for any implementation; \<open>recorder\<close> is one
  (\<open>httptest.ResponseRecorder\<close>).

  The process's environment is a record \<open>'w world\<close>: the monotonic and wall
  clocks (nanoseconds), the offset of the local zone at each Unix second, and
  the log sink \<open>out\<close> (the list of the writes made to it).
\<close>

subsection \<open>The wrapped response writer\<close>

text \<open>
  An \<open>http.ResponseWriter\<close> as a record of its methods. \<open>rw_fancy\<close> says
  whether it also implements \<open>http.CloseNotifier\<close>, \<open>http.Flusher\<close>,
  \<open>http.Hijacker\<close> and \<open>io.ReaderFrom\<close>, as net/http's own HTTP/1.x
  writer does; \<open>rw_ReadFrom\<close> is then its \<open>ReadFrom\<close> (the number of bytes
  it consumed and sent).
\<close>

record 'w respwriter_iface =
  rw_WriteHeader :: "'w \<Rightarrow> int \<Rightarrow> 'w"
  rw_Write :: "'w \<Rightarrow> gostring \<Rightarrow> 'w \<times> int"
  rw_fancy :: bool
  rw_ReadFrom :: "'w \<Rightarrow> gostring \<Rightarrow> 'w \<times> int"

text \<open>
  chi's \<open>basicWriter\<close>: the wrapped writer and the three fields the logger
  reads back. \<open>NewWrapResponseWriter\<close> starts from Go's zero values.
\<close>

record 'w basicWriter =
  inner :: 'w
  wroteHeader :: bool
  code :: int
  bytes :: int

definition NewWrapResponseWriter :: "'w \<Rightarrow> 'w basicWriter" where
  "NewWrapResponseWriter w = \<lparr>inner = w, wroteHeader = False, code = 0, bytes = 0\<rparr>"

definition bwWriteHeader :: "'w respwriter_iface \<Rightarrow> 'w basicWriter \<Rightarrow> int \<Rightarrow> 'w basicWriter" where
  "bwWriteHeader rw b c =
     (if \<not> wroteHeader b then b\<lparr>code := c, wroteHeader := True, inner := rw_WriteHeader rw (inner b) c\<rparr>
      else b)"

text \<open>\<open>Write\<close>: the implicit \<open>WriteHeader(http.StatusOK)\<close>, then the inner write, whose count is added.\<close>

definition bwWrite :: "'w respwriter_iface \<Rightarrow> 'w basicWriter \<Rightarrow> gostring \<Rightarrow> 'w basicWriter \<times> int" where
  "bwWrite rw b buf =
     (let b = bwWriteHeader rw b 200;
          (w', n) = rw_Write rw (inner b) buf
      in (b\<lparr>inner := w', bytes := bytes b + n\<rparr>, n))"

definition bwMaybeWriteHeader :: "'w respwriter_iface \<Rightarrow> 'w basicWriter \<Rightarrow> 'w basicWriter" where
  "bwMaybeWriteHeader rw b = (if \<not> wroteHeader b then bwWriteHeader rw b 200 else b)"

text \<open>
  \<open>NewWrapResponseWriter\<close> returns a \<open>fancyWriter\<close> when the writer it wraps
  is fancy, otherwise a \<open>flushWriter\<close> or the \<open>basicWriter\<close> itself; all
  three embed the same \<open>basicWriter\<close>, and they differ, for the calls a
  handler makes, only in \<open>ReadFrom\<close>. The fancy writer's \<open>ReadFrom\<close> (no tee
  is ever set by the logger) writes the implicit header and hands the reader
  to the inner \<open>ReadFrom\<close>, without adding to \<open>bytes\<close>.
\<close>

definition fancyReadFrom ::
  "'w respwriter_iface \<Rightarrow> 'w basicWriter \<Rightarrow> gostring \<Rightarrow> 'w basicWriter \<times> int" where
  "fancyReadFrom rw b src =
     (let b = bwMaybeWriteHeader rw b;
          (w', n) = rw_ReadFrom rw (inner b) src
      in (b\<lparr>inner := w'\<rparr>, n))"

text \<open>
  \<open>io.Copy(w2, src)\<close> from a reader without \<open>WriteTo\<close> (an \<open>*os.File\<close>,
  the \<open>io.LimitedReader\<close> of \<open>http.ServeContent\<close>): the writer's
  \<open>ReadFrom\<close> if it has one, otherwise the loop of 32 KiB reads, each
  written with \<open>Write\<close>, stopping at a short write (\<open>ErrShortWrite\<close>).
\<close>

function copyLoop :: "'w respwriter_iface \<Rightarrow> 'w basicWriter \<Rightarrow> gostring \<Rightarrow> 'w basicWriter" where
  "copyLoop rw b src =
     (if src = [] then b
      else let chunk = take 32768 src; (b', n) = bwWrite rw b chunk in
           if n \<noteq> int (length chunk) then b' else copyLoop rw b' (drop 32768 src))"
  by pat_completeness auto
termination
  by (relation "measure (\<lambda>(rw, b, src). length src)") auto

definition ioCopy :: "'w respwriter_iface \<Rightarrow> 'w basicWriter \<Rightarrow> gostring \<Rightarrow> 'w basicWriter" where
  "ioCopy rw b src = (if rw_fancy rw then fst (fancyReadFrom rw b src) else copyLoop rw b src)"

definition Status :: "'w basicWriter \<Rightarrow> int" where
  "Status b = code b"

definition BytesWritten :: "'w basicWriter \<Rightarrow> int" where
  "BytesWritten b = bytes b"

text \<open>
  \<open>httptest.ResponseRecorder\<close> as an implementation of the interface: the
  status it sent (the first one) and the body. Its \<open>Write\<close> sends 200 when
  no status was sent and accepts every byte. It is a \<open>Flusher\<close> only, so
  it is not fancy (its \<open>rw_ReadFrom\<close> is never consulted; it is given
  \<open>Write\<close>'s meaning). \<open>conn_rw\<close> is the same state behind net/http's
  HTTP/1.x writer, which is fancy: its \<open>ReadFrom\<close> sends the whole reader.
\<close>

record recorder =
  rec_code :: "int option"
  rec_body :: gostring

definition recorder_rw :: "recorder respwriter_iface" where
  "recorder_rw =
     \<lparr>rw_WriteHeader = (\<lambda>w c. if rec_code w = None then w\<lparr>rec_code := Some c\<rparr> else w),
      rw_Write = (\<lambda>w buf. (w\<lparr>rec_code := (if rec_code w = None then Some 200 else rec_code w),
                              rec_body := rec_body w @ buf\<rparr>, int (length buf))),
      rw_fancy = False,
      rw_ReadFrom = (\<lambda>w buf. (w\<lparr>rec_code := (if rec_code w = None then Some 200 else rec_code w),
                                 rec_body := rec_body w @ buf\<rparr>, int (length buf)))\<rparr>"

definition conn_rw :: "recorder respwriter_iface" where
  "conn_rw = recorder_rw\<lparr>rw_fancy := True\<rparr>"

subsection \<open>Clocks\<close>

record 'w world =
  mono :: int
  wall :: int
  zone :: "int \<Rightarrow> int"
  out :: writer

text \<open>A \<open>time.Time\<close> returned by \<open>time.Now\<close>: both readings.\<close>

record goinstant =
  wall_ns :: int
  mono_ns :: int

definition Now :: "'w world \<Rightarrow> goinstant" where
  "Now wd = \<lparr>wall_ns = wall wd, mono_ns = mono wd\<rparr>"

text \<open>The instant as \<open>Format\<close> reads it: Unix seconds and the zone offset then.\<close>

definition clfTime :: "'w world \<Rightarrow> goinstant \<Rightarrow> gotime" where
  "clfTime wd t =
     (let s = wall_ns t div 1000000000 in \<lparr>unix_sec = s, zone_offset = zone wd s\<rparr>)"

definition maxDuration :: int where "maxDuration = 2 ^ 63 - 1"
definition minDuration :: int where "minDuration = - (2 ^ 63)"

text \<open>
  \<open>t.Sub(u)\<close> on two times with monotonic readings \<open>te\<close>, \<open>ue\<close> (int64):
  \<open>d := Duration(te - ue)\<close> wraps, and an overflow is detected by the sign
  and saturated.
\<close>

definition Sub :: "goinstant \<Rightarrow> goinstant \<Rightarrow> int" where
  "Sub t u =
     (let te = mono_ns t; ue = mono_ns u; d = sint (word_of_int (te - ue) :: 64 word) in
      if d < 0 \<and> te > ue then maxDuration
      else if d > 0 \<and> te < ue then minDuration
      else d)"

subsection \<open>Handlers\<close>

datatype handler_op = HWriteHeader int | HWrite gostring | HCopy gostring | HElapse nat | HStepWall int

type_synonym handler = "request \<Rightarrow> handler_op list"

text \<open>\<open>next.ServeHTTP(w2, r)\<close>: the script run against the wrapped writer.\<close>

fun runHandler ::
  "'w respwriter_iface \<Rightarrow> 'w world \<Rightarrow> 'w basicWriter \<Rightarrow> handler_op list \<Rightarrow> 'w world \<times> 'w basicWriter" where
  "runHandler rw wd b [] = (wd, b)"
| "runHandler rw wd b (HWriteHeader c # ops) = runHandler rw wd (bwWriteHeader rw b c) ops"
| "runHandler rw wd b (HWrite buf # ops) = runHandler rw wd (fst (bwWrite rw b buf)) ops"
| "runHandler rw wd b (HCopy src # ops) = runHandler rw wd (ioCopy rw b src) ops"
| "runHandler rw wd b (HElapse d # ops) =
     runHandler rw (wd\<lparr>mono := mono wd + int d, wall := wall wd + int d\<rparr>) b ops"
| "runHandler rw wd b (HStepWall k # ops) = runHandler rw (wd\<lparr>wall := wall wd + k\<rparr>) b ops"

subsection \<open>The middlewares\<close>

definition CommonLogger ::
  "print_tables \<Rightarrow> 'w respwriter_iface \<Rightarrow> handler \<Rightarrow> request \<Rightarrow> 'w \<Rightarrow> 'w world \<Rightarrow> 'w world \<times> 'w" where
  "CommonLogger tb rw next r w wd =
     (let t1 = Now wd;
          w2 = NewWrapResponseWriter w;
          (wd, w2) = runHandler rw wd w2 (next r);
          t2 = Now wd
      in (wd\<lparr>out := writeCommonLog tb (out wd) r (clfTime wd t1) (Status w2) (BytesWritten w2) (Sub t2 t1)\<rparr>,
          inner w2))"

definition CombinedLogger ::
  "print_tables \<Rightarrow> 'w respwriter_iface \<Rightarrow> handler \<Rightarrow> request \<Rightarrow> 'w \<Rightarrow> 'w world \<Rightarrow> 'w world \<times> 'w" where
  "CombinedLogger tb rw next r w wd =
     (let t1 = Now wd;
          w2 = NewWrapResponseWriter w;
          (wd, w2) = runHandler rw wd w2 (next r);
          t2 = Now wd
      in (wd\<lparr>out := writeCombinedLog tb (out wd) r (clfTime wd t1) (Status w2) (BytesWritten w2) (Sub t2 t1)\<rparr>,
          inner w2))"

subsection \<open>What the logger observes of a handler\<close>

text \<open>
  Reference functions over the script, for a wrapped writer that is fancy
  (\<open>f\<close>) or not: the status chi reports (the first \<open>WriteHeader\<close>, 200 if a
  \<open>Write\<close> or a copy that writes comes first, Go's zero value 0 if
  neither), the bytes chi counts (those passed to \<open>Write\<close>, and those of a
  copy unless the writer is fancy), the bytes the handler sends, and the
  monotonic time the handler takes.
\<close>

fun statusOf :: "bool \<Rightarrow> handler_op list \<Rightarrow> int" where
  "statusOf f [] = 0"
| "statusOf f (HWriteHeader c # _) = c"
| "statusOf f (HWrite _ # _) = 200"
| "statusOf f (HCopy src # ops) = (if f \<or> src \<noteq> [] then 200 else statusOf f ops)"
| "statusOf f (_ # ops) = statusOf f ops"

fun bodyLen :: "bool \<Rightarrow> handler_op list \<Rightarrow> nat" where
  "bodyLen f [] = 0"
| "bodyLen f (HWrite buf # ops) = length buf + bodyLen f ops"
| "bodyLen f (HCopy src # ops) = (if f then 0 else length src) + bodyLen f ops"
| "bodyLen f (_ # ops) = bodyLen f ops"

fun sentBody :: "handler_op list \<Rightarrow> gostring" where
  "sentBody [] = []"
| "sentBody (HWrite buf # ops) = buf @ sentBody ops"
| "sentBody (HCopy src # ops) = src @ sentBody ops"
| "sentBody (_ # ops) = sentBody ops"

fun elapsedOf :: "handler_op list \<Rightarrow> nat" where
  "elapsedOf [] = 0"
| "elapsedOf (HElapse d # ops) = d + elapsedOf ops"
| "elapsedOf (_ # ops) = elapsedOf ops"

subsection \<open>Invariant and interface contracts\<close>

text \<open>
  The invariant of \<open>basicWriter\<close>: before a header is written nothing has
  been counted and the code is still zero; the count is never negative.
  \<open>rw_counts\<close> is the \<open>io.Writer\<close> contract on the wrapped writer
  (\<open>0 \<le> n \<le> len(p)\<close>), \<open>rw_accepts\<close> a writer that accepts every byte.
  \<open>int64\<close> is the range of a \<open>time.Duration\<close> and of a monotonic reading.
\<close>

definition bw_inv :: "'w basicWriter \<Rightarrow> bool" where
  "bw_inv b \<longleftrightarrow> (\<not> wroteHeader b \<longrightarrow> code b = 0 \<and> bytes b = 0) \<and> 0 \<le> bytes b"

definition rw_counts :: "'w respwriter_iface \<Rightarrow> bool" where
  "rw_counts rw \<longleftrightarrow>
     (\<forall>w buf. 0 \<le> snd (rw_Write rw w buf) \<and> snd (rw_Write rw w buf) \<le> int (length buf))"

definition rw_accepts :: "'w respwriter_iface \<Rightarrow> bool" where
  "rw_accepts rw \<longleftrightarrow> (\<forall>w buf. snd (rw_Write rw w buf) = int (length buf))"

definition int64 :: "int \<Rightarrow> bool" where
  "int64 x \<longleftrightarrow> minDuration \<le> x \<and> x \<le> maxDuration"

subsection \<open>Time.Sub\<close>

text \<open>On int64 readings \<open>Sub\<close> is the exact difference clamped to the int64 range.\<close>

lemma Sub_saturating:
  assumes "int64 (mono_ns t)" "int64 (mono_ns u)"
  shows "Sub t u = max minDuration (min maxDuration (mono_ns t - mono_ns u))"
proof -
  define x where "x = mono_ns t - mono_ns u"
  have b: "- (2 ^ 64) < x" "x < 2 ^ 64"
    using assms by (auto simp: int64_def minDuration_def maxDuration_def x_def)
  have s: "Sub t u = (let d = (x + 2 ^ 63) mod 2 ^ 64 - 2 ^ 63 in
      if d < 0 \<and> 0 < x then maxDuration else if d > 0 \<and> x < 0 then minDuration else d)"
    unfolding Sub_def sint64_word_of_int x_def by (simp add: Let_def)
  consider "x < - (2 ^ 63)" | "- (2 ^ 63) \<le> x" "x < 2 ^ 63" | "2 ^ 63 \<le> x" by linarith
  then show ?thesis
  proof cases
    case 1
    have "(x + 2 ^ 63) mod 2 ^ 64 = x + 2 ^ 63 + 2 ^ 64"
      using 1 b by (intro mod_shift_up) simp_all
    then show ?thesis using 1 b unfolding s x_def[symmetric] Let_def
      by (simp add: minDuration_def maxDuration_def)
  next
    case 2
    have "(x + 2 ^ 63) mod 2 ^ 64 = x + 2 ^ 63" using 2 by (intro mod_pos_pos_trivial) simp_all
    then show ?thesis using 2 b unfolding s x_def[symmetric] Let_def
      by (simp add: minDuration_def maxDuration_def)
  next
    case 3
    have "(x + 2 ^ 63) mod 2 ^ 64 = x + 2 ^ 63 - 2 ^ 64" using 3 b by (intro mod_shift_down) simp_all
    then show ?thesis using 3 b unfolding s x_def[symmetric] Let_def
      by (simp add: minDuration_def maxDuration_def)
  qed
qed

subsection \<open>The wrapped writer\<close>

lemma bw_inv_New: "bw_inv (NewWrapResponseWriter w)"
  by (simp add: bw_inv_def NewWrapResponseWriter_def)

lemma bw_inv_WriteHeader: "bw_inv b \<Longrightarrow> bw_inv (bwWriteHeader rw b c)"
  by (simp add: bw_inv_def bwWriteHeader_def)

lemma bwWrite_fields:
  "fst (bwWrite rw b buf) =
     (bwWriteHeader rw b 200)\<lparr>inner := fst (rw_Write rw (inner (bwWriteHeader rw b 200)) buf),
        bytes := bytes b + snd (rw_Write rw (inner (bwWriteHeader rw b 200)) buf)\<rparr>"
  by (simp add: bwWrite_def split_def Let_def bwWriteHeader_def)

lemma bwWriteHeader_wrote [simp]: "wroteHeader (bwWriteHeader rw b c)"
  by (simp add: bwWriteHeader_def)

lemma bwWriteHeader_bytes [simp]: "bytes (bwWriteHeader rw b c) = bytes b"
  by (simp add: bwWriteHeader_def)

lemma bwWriteHeader_code: "code (bwWriteHeader rw b c) = (if wroteHeader b then code b else c)"
  by (simp add: bwWriteHeader_def)

lemma bw_inv_Write: "rw_counts rw \<Longrightarrow> bw_inv b \<Longrightarrow> bw_inv (fst (bwWrite rw b buf))"
  by (simp add: bw_inv_def bwWrite_fields rw_counts_def add_nonneg_nonneg)

lemma bwWrite_bytes: "bwWrite rw b buf = (b', n) \<Longrightarrow> bytes b' = bytes b + n"
  by (auto simp: bwWrite_def split_def Let_def bwWriteHeader_def)

lemma bwWrite_code:
  "wroteHeader (fst (bwWrite rw b buf)) \<and> code (fst (bwWrite rw b buf)) = (if wroteHeader b then code b else 200)"
  by (simp add: bwWrite_fields bwWriteHeader_code)

lemma fancyReadFrom_fields:
  "wroteHeader (fst (fancyReadFrom rw b src)) \<and> bytes (fst (fancyReadFrom rw b src)) = bytes b \<and>
   code (fst (fancyReadFrom rw b src)) = (if wroteHeader b then code b else 200)"
  by (simp add: fancyReadFrom_def bwMaybeWriteHeader_def bwWriteHeader_code split_def Let_def)

subsection \<open>io.Copy through the wrapped writer\<close>

declare copyLoop.simps [simp del]

lemma copyLoop_Nil [simp]: "copyLoop rw b [] = b"
  by (simp add: copyLoop.simps)

lemma copyLoop_step:
  assumes "src \<noteq> []" "bwWrite rw b (take 32768 src) = (b', n)"
  shows "copyLoop rw b src = (if n \<noteq> int (length (take 32768 src)) then b' else copyLoop rw b' (drop 32768 src))"
  using assms by (simp add: copyLoop.simps [of rw b src] Let_def)

lemma copyLoop_inv: "rw_counts rw \<Longrightarrow> bw_inv b \<Longrightarrow> bw_inv (copyLoop rw b src)"
proof (induction rw b src rule: copyLoop.induct)
  case (1 rw b src)
  show ?case
  proof (cases "src = []")
    case False
    obtain b' n where w: "bwWrite rw b (take 32768 src) = (b', n)" by fastforce
    have "bw_inv b'" using bw_inv_Write [OF 1(2,3), of "take 32768 src"] w by simp
    then show ?thesis using 1 w False by (simp add: copyLoop_step [OF False w])
  qed (simp add: 1)
qed

lemma copyLoop_code:
  "wroteHeader (copyLoop rw b src) = (wroteHeader b \<or> src \<noteq> []) \<and>
   code (copyLoop rw b src) = (if wroteHeader b \<or> src = [] then code b else 200)"
proof (induction rw b src rule: copyLoop.induct)
  case (1 rw b src)
  show ?case
  proof (cases "src = []")
    case False
    obtain b' n where w: "bwWrite rw b (take 32768 src) = (b', n)" by fastforce
    have "wroteHeader b' \<and> code b' = (if wroteHeader b then code b else 200)"
      using bwWrite_code [of rw b "take 32768 src"] w by simp
    then show ?thesis using 1 w False by (auto simp: copyLoop_step [OF False w])
  qed simp
qed

lemma copyLoop_bytes: "rw_accepts rw \<Longrightarrow> bytes (copyLoop rw b src) = bytes b + int (length src)"
proof (induction rw b src rule: copyLoop.induct)
  case (1 rw b src)
  show ?case
  proof (cases "src = []")
    case False
    obtain b' n where w: "bwWrite rw b (take 32768 src) = (b', n)" by fastforce
    have n: "n = int (length (take 32768 src))"
      using w 1(2) unfolding rw_accepts_def bwWrite_def split_def Let_def by (metis prod.inject)
    have "bytes (copyLoop rw b' (drop 32768 src)) = bytes b' + int (length (drop 32768 src))"
      using 1(1) [OF False refl refl w [symmetric]] 1(2) n by simp
    moreover have "bytes b' = bytes b + n" using bwWrite_bytes [OF w] .
    moreover have "int (length src) = int (length (take 32768 src)) + int (length (drop 32768 src))" by simp
    ultimately show ?thesis using n by (simp add: copyLoop_step [OF False w] del: length_take length_drop)
  qed simp
qed

lemma copyLoop_bytes_bound:
  "rw_counts rw \<Longrightarrow> bytes b \<le> bytes (copyLoop rw b src) \<and> bytes (copyLoop rw b src) \<le> bytes b + int (length src)"
proof (induction rw b src rule: copyLoop.induct)
  case (1 rw b src)
  show ?case
  proof (cases "src = []")
    case False
    obtain b' n where w: "bwWrite rw b (take 32768 src) = (b', n)" by fastforce
    have "0 \<le> n \<and> n \<le> int (length (take 32768 src))"
      using w 1(2) unfolding rw_counts_def bwWrite_def split_def Let_def by (metis prod.inject)
    moreover have "bytes b' = bytes b + n" using bwWrite_bytes [OF w] .
    moreover have "int (length src) = int (length (take 32768 src)) + int (length (drop 32768 src))" by simp
    moreover have "n = int (length (take 32768 src)) \<Longrightarrow>
        bytes b' \<le> bytes (copyLoop rw b' (drop 32768 src)) \<and>
        bytes (copyLoop rw b' (drop 32768 src)) \<le> bytes b' + int (length (drop 32768 src))"
      using 1(1) [OF False refl refl w [symmetric]] 1(2) by simp
    ultimately show ?thesis by (simp add: copyLoop_step [OF False w] del: length_take length_drop) linarith
  qed simp
qed

lemma ioCopy_inv: "rw_counts rw \<Longrightarrow> bw_inv b \<Longrightarrow> bw_inv (ioCopy rw b src)"
  using fancyReadFrom_fields [of rw b src] copyLoop_inv [of rw b src]
  by (auto simp: ioCopy_def bw_inv_def)

lemma ioCopy_code:
  "wroteHeader (ioCopy rw b src) = (wroteHeader b \<or> rw_fancy rw \<or> src \<noteq> []) \<and>
   code (ioCopy rw b src) = (if wroteHeader b \<or> \<not> (rw_fancy rw \<or> src \<noteq> []) then code b else 200)"
  using fancyReadFrom_fields [of rw b src] copyLoop_code [of rw b src] by (auto simp: ioCopy_def)

lemma ioCopy_bytes:
  "rw_accepts rw \<Longrightarrow> bytes (ioCopy rw b src) = bytes b + (if rw_fancy rw then 0 else int (length src))"
  using fancyReadFrom_fields [of rw b src] copyLoop_bytes [of rw b src] by (simp add: ioCopy_def)

lemma ioCopy_bytes_bound:
  "rw_counts rw \<Longrightarrow> bytes b \<le> bytes (ioCopy rw b src) \<and>
     bytes (ioCopy rw b src) \<le> bytes b + (if rw_fancy rw then 0 else int (length src))"
  using fancyReadFrom_fields [of rw b src] copyLoop_bytes_bound [of rw b src] by (simp add: ioCopy_def)

subsection \<open>A handler through the wrapped writer\<close>

lemma runHandler_inv: "rw_counts rw \<Longrightarrow> bw_inv b \<Longrightarrow> bw_inv (snd (runHandler rw wd b ops))"
  by (induction rw wd b ops rule: runHandler.induct) (simp_all add: bw_inv_WriteHeader bw_inv_Write ioCopy_inv)

lemma runHandler_code:
  "(\<not> wroteHeader b \<longrightarrow> code b = 0) \<Longrightarrow>
   code (snd (runHandler rw wd b ops)) = (if wroteHeader b then code b else statusOf (rw_fancy rw) ops)"
proof (induction rw wd b ops rule: runHandler.induct)
  case (2 rw wd b c ops)
  then show ?case by (simp add: bw_inv_WriteHeader bwWriteHeader_code)
next
  case (3 rw wd b buf ops)
  then show ?case using bwWrite_code [of rw b buf] by simp
next
  case (4 rw wd b src ops)
  then show ?case using ioCopy_code [of rw b src] by auto
qed simp_all

lemma recorder_accepts: "rw_accepts recorder_rw"
  by (simp add: rw_accepts_def recorder_rw_def)

lemma recorder_counts: "rw_counts recorder_rw"
  by (simp add: rw_counts_def recorder_rw_def)

lemma conn_accepts: "rw_accepts conn_rw \<and> rw_fancy conn_rw"
  by (simp add: rw_accepts_def conn_rw_def recorder_rw_def)

text \<open>A script that neither writes a header, nor writes, nor copies leaves the wrapped writer as it was.\<close>

lemma runHandler_silent:
  "\<forall>op \<in> set ops. op \<notin> range HWriteHeader \<and> op \<notin> range HWrite \<and> op \<notin> range HCopy \<Longrightarrow>
   snd (runHandler rw wd b ops) = b"
  by (induction rw wd b ops rule: runHandler.induct) auto

text \<open>What the client receives: behind the recording writers every byte a write or a copy hands to the wrapper reaches the inner writer.\<close>

lemma recorder_like_bwWrite:
  assumes "rw = recorder_rw \<or> rw = conn_rw"
  shows "rec_body (inner (fst (bwWrite rw b buf))) = rec_body (inner b) @ buf \<and> snd (bwWrite rw b buf) = int (length buf)"
  using assms by (auto simp: bwWrite_def bwWriteHeader_def Let_def split_def recorder_rw_def conn_rw_def)

lemma copyLoop_body:
  "rw = recorder_rw \<or> rw = conn_rw \<Longrightarrow> rec_body (inner (copyLoop rw b src)) = rec_body (inner b) @ src"
proof (induction rw b src rule: copyLoop.induct)
  case (1 rw b src)
  show ?case
  proof (cases "src = []")
    case False
    obtain b' n where w: "bwWrite rw b (take 32768 src) = (b', n)" by fastforce
    have "rec_body (inner b') = rec_body (inner b) @ take 32768 src" "n = int (length (take 32768 src))"
      using recorder_like_bwWrite [OF 1(2), of b "take 32768 src"] w by simp_all
    moreover have "rec_body (inner (copyLoop rw b' (drop 32768 src))) = rec_body (inner b') @ drop 32768 src"
      using 1(1) [OF False refl refl w [symmetric]] 1(2) calculation(2) by simp
    ultimately show ?thesis by (simp add: copyLoop_step [OF False w] del: length_take)
  qed simp
qed

lemma ioCopy_body:
  "rw = recorder_rw \<or> rw = conn_rw \<Longrightarrow> rec_body (inner (ioCopy rw b src)) = rec_body (inner b) @ src"
  using copyLoop_body [of rw b src]
  by (auto simp: ioCopy_def fancyReadFrom_def bwMaybeWriteHeader_def bwWriteHeader_def Let_def split_def
      conn_rw_def recorder_rw_def)

lemma runHandler_body:
  "rw = recorder_rw \<or> rw = conn_rw \<Longrightarrow>
   rec_body (inner (snd (runHandler rw wd b ops))) = rec_body (inner b) @ sentBody ops"
proof (induction rw wd b ops rule: runHandler.induct)
  case (2 rw wd b c ops)
  then show ?case by (auto simp: bwWriteHeader_def recorder_rw_def conn_rw_def)
next
  case (3 rw wd b buf ops)
  then show ?case using recorder_like_bwWrite [OF 3(2), of b buf] by simp
next
  case (4 rw wd b src ops)
  then show ?case using ioCopy_body [OF 4(2), of b src] by simp
qed simp_all

subsection \<open>One request through the middleware\<close>

lemma runHandler_bytes:
  "rw_accepts rw \<Longrightarrow> bytes (snd (runHandler rw wd b ops)) = bytes b + int (bodyLen (rw_fancy rw) ops)"
  by (induction rw wd b ops rule: runHandler.induct) (simp_all add: bwWrite_fields rw_accepts_def ioCopy_bytes)

lemma runHandler_bytes_bound:
  "rw_counts rw \<Longrightarrow> bytes b \<le> bytes (snd (runHandler rw wd b ops)) \<and>
     bytes (snd (runHandler rw wd b ops)) \<le> bytes b + int (bodyLen (rw_fancy rw) ops)"
proof (induction rw wd b ops rule: runHandler.induct)
  case (3 rw wd b buf ops)
  define n where "n = snd (rw_Write rw (inner (bwWriteHeader rw b 200)) buf)"
  have "0 \<le> n" "n \<le> int (length buf)" using 3(2) by (simp_all add: rw_counts_def n_def)
  moreover have "bytes (fst (bwWrite rw b buf)) = bytes b + n" by (simp add: bwWrite_fields n_def)
  ultimately show ?case using 3 by fastforce
next
  case (4 rw wd b src ops)
  then show ?case using ioCopy_bytes_bound [OF 4(2), of b src] by (fastforce split: if_splits)
qed simp_all

lemma runHandler_world:
  "mono (fst (runHandler rw wd b ops)) = mono wd + int (elapsedOf ops) \<and>
   zone (fst (runHandler rw wd b ops)) = zone wd \<and> out (fst (runHandler rw wd b ops)) = out wd"
  by (induction rw wd b ops rule: runHandler.induct) simp_all

lemma elapsed_Sub:
  assumes "0 \<le> mono wd" "mono wd + int d \<le> maxDuration" "mono wd' = mono wd + int d"
  shows "Sub (Now wd') (Now wd) = int d"
proof -
  have "Sub (Now wd') (Now wd) = max minDuration (min maxDuration (mono wd' - mono wd))"
    using assms Sub_saturating [of "Now wd'" "Now wd"]
    by (simp add: Now_def int64_def minDuration_def maxDuration_def)
  then show ?thesis using assms by (simp add: int64_def minDuration_def maxDuration_def)
qed

lemma runHandler_observed:
  assumes "rw_accepts rw" "0 \<le> mono wd" "mono wd + int (elapsedOf ops) \<le> maxDuration"
    and res: "runHandler rw wd (NewWrapResponseWriter w) ops = (wd', b)"
  shows "Status b = statusOf (rw_fancy rw) ops \<and> BytesWritten b = int (bodyLen (rw_fancy rw) ops) \<and>
         Sub (Now wd') (Now wd) = int (elapsedOf ops) \<and> zone wd' = zone wd \<and> out wd' = out wd"
proof -
  have w: "mono wd' = mono wd + int (elapsedOf ops) \<and> zone wd' = zone wd \<and> out wd' = out wd"
    using runHandler_world [of rw wd "NewWrapResponseWriter w" ops] res by simp
  have "Status b = statusOf (rw_fancy rw) ops"
    using runHandler_code [of "NewWrapResponseWriter w" rw wd ops] res
    by (simp add: Status_def NewWrapResponseWriter_def)
  moreover have "BytesWritten b = int (bodyLen (rw_fancy rw) ops)"
    using runHandler_bytes [OF assms(1), of wd "NewWrapResponseWriter w" ops] res
    by (simp add: BytesWritten_def NewWrapResponseWriter_def)
  moreover have "Sub (Now wd') (Now wd) = int (elapsedOf ops)"
    using assms(2,3) w by (intro elapsed_Sub) simp_all
  ultimately show ?thesis using w by simp
qed

lemma CommonLogger_out:
  assumes "rw_accepts rw" "0 \<le> mono wd" "mono wd + int (elapsedOf (next r)) \<le> maxDuration"
  shows "out (fst (CommonLogger tb rw next r w wd)) =
           writeCommonLog tb (out wd) r (clfTime wd (Now wd)) (statusOf (rw_fancy rw) (next r))
             (int (bodyLen (rw_fancy rw) (next r))) (int (elapsedOf (next r)))"
proof -
  obtain wd' b where res: "runHandler rw wd (NewWrapResponseWriter w) (next r) = (wd', b)" by fastforce
  have "clfTime wd' = clfTime wd"
    using runHandler_world [of rw wd "NewWrapResponseWriter w" "next r"] res
    by (simp add: clfTime_def fun_eq_iff)
  then show ?thesis
    using runHandler_observed [OF assms res] res by (simp add: CommonLogger_def Let_def)
qed

lemma CombinedLogger_out:
  assumes "rw_accepts rw" "0 \<le> mono wd" "mono wd + int (elapsedOf (next r)) \<le> maxDuration"
  shows "out (fst (CombinedLogger tb rw next r w wd)) =
           writeCombinedLog tb (out wd) r (clfTime wd (Now wd)) (statusOf (rw_fancy rw) (next r))
             (int (bodyLen (rw_fancy rw) (next r))) (int (elapsedOf (next r)))"
proof -
  obtain wd' b where res: "runHandler rw wd (NewWrapResponseWriter w) (next r) = (wd', b)" by fastforce
  have "clfTime wd' = clfTime wd"
    using runHandler_world [of rw wd "NewWrapResponseWriter w" "next r"] res
    by (simp add: clfTime_def fun_eq_iff)
  then show ?thesis
    using runHandler_observed [OF assms res] res by (simp add: CombinedLogger_def Let_def)
qed

subsection \<open>A handler that sends nothing\<close>

lemma silent_observed:
  assumes "\<forall>op \<in> set ops. op \<notin> range HWriteHeader \<and> op \<notin> range HWrite \<and> op \<notin> range HCopy"
    and "0 \<le> mono wd" "mono wd + int (elapsedOf ops) \<le> maxDuration"
    and res: "runHandler rw wd (NewWrapResponseWriter w) ops = (wd', b)"
  shows "Status b = 0 \<and> BytesWritten b = 0 \<and> inner b = w \<and>
         Sub (Now wd') (Now wd) = int (elapsedOf ops) \<and> clfTime wd' = clfTime wd \<and> out wd' = out wd"
proof -
  have b: "b = NewWrapResponseWriter w" using runHandler_silent [OF assms(1), of rw wd "NewWrapResponseWriter w"] res by simp
  have w: "mono wd' = mono wd + int (elapsedOf ops) \<and> zone wd' = zone wd \<and> out wd' = out wd"
    using runHandler_world [of rw wd "NewWrapResponseWriter w" ops] res by simp
  then have "Sub (Now wd') (Now wd) = int (elapsedOf ops)" using assms(2,3) by (intro elapsed_Sub) simp_all
  moreover have "clfTime wd' = clfTime wd" using w by (simp add: clfTime_def fun_eq_iff)
  ultimately show ?thesis using b w by (simp add: Status_def BytesWritten_def NewWrapResponseWriter_def)
qed

lemma Loggers_silent:
  assumes "\<forall>op \<in> set (next r). op \<notin> range HWriteHeader \<and> op \<notin> range HWrite \<and> op \<notin> range HCopy"
    and "0 \<le> mono wd" "mono wd + int (elapsedOf (next r)) \<le> maxDuration"
  shows "out (fst (CommonLogger tb rw next r w wd)) =
           writeCommonLog tb (out wd) r (clfTime wd (Now wd)) 0 0 (int (elapsedOf (next r))) \<and>
         snd (CommonLogger tb rw next r w wd) = w \<and>
         out (fst (CombinedLogger tb rw next r w wd)) =
           writeCombinedLog tb (out wd) r (clfTime wd (Now wd)) 0 0 (int (elapsedOf (next r))) \<and>
         snd (CombinedLogger tb rw next r w wd) = w"
proof -
  obtain wd' b where res: "runHandler rw wd (NewWrapResponseWriter w) (next r) = (wd', b)" by fastforce
  show ?thesis using silent_observed [OF assms res] res by (simp add: CommonLogger_def CombinedLogger_def Let_def)
qed

lemma bodyLen_sentBody: "bodyLen f ops \<le> length (sentBody ops)"
proof (induction ops)
  case (Cons op ops)
  then show ?case by (cases op) auto
qed simp

end
