(* ===== verification/Server.thy ===== *)
theory Server
  imports Middleware "HOL-Library.Multiset"
begin

text \<open>
  Many requests through one middleware instance at once (specification,
  section 5): net/http runs each request on its own goroutine, the
  middleware adds no lock, and every request ends with one \<open>Write\<close> on the
  shared sink. The server is an \<open>inductive\<close> step relation over the shared
  world and the list of the requests accepted so far, each either running (its
  start instant, its wrapped writer, the rest of its handler script) or done
  (the line it wrote). A step is a new request (\<open>time.Now\<close>,
  \<open>NewWrapResponseWriter\<close>), one call of some running handler, time passing,
  or a handler returning and its middleware writing the line. The scheduler
  is arbitrary, so every interleaving of the requests' steps is a run.

  The lemmas show, by rule induction over the runs: the sink receives exactly
  the lines of the finished requests, one each, whole and newline-terminated,
  and only appended to; every logged latency is between zero and
  \<open>maxDuration\<close>; and a running request whose remaining time fits the clock
  can always run to its log line; chi's writer invariant holds on every
  running request; and whatever holds of every line the logger can write
  for a request holds of the line that request logged.
\<close>

datatype log_format = CommonFmt | CombinedFmt

text \<open>The final call of \<open>CommonLogger\<close> (line 52) or \<open>CombinedLogger\<close> (line 37).\<close>

definition writeLog ::
  "log_format \<Rightarrow> print_tables \<Rightarrow> writer \<Rightarrow> request \<Rightarrow> gotime \<Rightarrow> int \<Rightarrow> int \<Rightarrow> int \<Rightarrow> writer" where
  "writeLog fmt tb w req ts status sz delay =
     (case fmt of CommonFmt \<Rightarrow> writeCommonLog tb w req ts status sz delay
      | CombinedFmt \<Rightarrow> writeCombinedLog tb w req ts status sz delay)"

datatype 'w req_state =
    Running goinstant "'w basicWriter" "handler_op list"
  | Done gostring int

record 'w server =
  env :: "'w world"
  reqs :: "(request \<times> 'w req_state) list"

text \<open>One call of a handler script, as \<open>runHandler\<close> makes it.\<close>

definition handlerStep ::
  "'w respwriter_iface \<Rightarrow> 'w world \<Rightarrow> 'w basicWriter \<Rightarrow> handler_op \<Rightarrow> 'w world \<times> 'w basicWriter" where
  "handlerStep rw wd b op = runHandler rw wd b [op]"

text \<open>
  The clock never passes \<open>maxDuration\<close> (an int64 of nanoseconds, about 292
  years): a step that would take it there is not a step of the model.
\<close>

inductive srv_step ::
  "log_format \<Rightarrow> print_tables \<Rightarrow> 'w respwriter_iface \<Rightarrow> handler \<Rightarrow> 'w server \<Rightarrow> 'w server \<Rightarrow> bool"
  for fmt tb rw hnd where
  accept: "srv_step fmt tb rw hnd s
     (s\<lparr>reqs := reqs s @ [(r, Running (Now (env s)) (NewWrapResponseWriter w) (hnd r))]\<rparr>)"
| call: "\<lbrakk>i < length (reqs s); reqs s ! i = (r, Running t1 b (op # ops));
          handlerStep rw (env s) b op = (wd', b'); mono wd' \<le> maxDuration\<rbrakk> \<Longrightarrow>
     srv_step fmt tb rw hnd s (s\<lparr>env := wd', reqs := (reqs s)[i := (r, Running t1 b' ops)]\<rparr>)"
| tick: "mono (env s) + int d \<le> maxDuration \<Longrightarrow>
     srv_step fmt tb rw hnd s
       (s\<lparr>env := (env s)\<lparr>mono := mono (env s) + int d, wall := wall (env s) + int d\<rparr>\<rparr>)"
| finish: "\<lbrakk>i < length (reqs s); reqs s ! i = (r, Running t1 b []); d = Sub (Now (env s)) t1;
            w' = writeLog fmt tb (out (env s)) r (clfTime (env s) t1) (Status b) (BytesWritten b) d\<rbrakk> \<Longrightarrow>
     srv_step fmt tb rw hnd s (s\<lparr>env := (env s)\<lparr>out := w'\<rparr>, reqs := (reqs s)[i := (r, Done (last w') d)]\<rparr>)"

inductive_cases srv_stepE: "srv_step fmt tb rw hnd s s'"

inductive reach ::
  "log_format \<Rightarrow> print_tables \<Rightarrow> 'w respwriter_iface \<Rightarrow> handler \<Rightarrow> 'w server \<Rightarrow> 'w server \<Rightarrow> bool"
  for fmt tb rw hnd s0 where
  init: "reach fmt tb rw hnd s0 s0"
| step: "reach fmt tb rw hnd s0 s \<Longrightarrow> srv_step fmt tb rw hnd s s' \<Longrightarrow> reach fmt tb rw hnd s0 s'"

text \<open>The lines of the finished requests, in the order the requests arrived.\<close>

fun done_lines :: "(request \<times> 'w req_state) list \<Rightarrow> gostring list" where
  "done_lines [] = []"
| "done_lines ((r, Done line d) # rs) = line # done_lines rs"
| "done_lines (_ # rs) = done_lines rs"

text \<open>
  The invariant of a run from \<open>s0\<close>: the sink holds what it held at the start
  followed by the lines of the finished requests, in some order, one each; the
  monotonic clock has only advanced and stays in range; a running request
  started at a reading between zero and now; a finished one logged a latency
  in \<open>[0, maxDuration]\<close> and a line ending in a newline.
\<close>

fun req_ok :: "int \<Rightarrow> 'w req_state \<Rightarrow> bool" where
  "req_ok m (Running t1 b ops) \<longleftrightarrow> 0 \<le> mono_ns t1 \<and> mono_ns t1 \<le> m"
| "req_ok m (Done line d) \<longleftrightarrow> 0 \<le> d \<and> d \<le> maxDuration \<and> line \<noteq> [] \<and> last line = 0x0A"

text \<open>The invariant of chi's writer (\<open>bw_inv\<close>) on every running request.\<close>

fun writer_ok :: "'w req_state \<Rightarrow> bool" where
  "writer_ok (Running t1 b ops) = bw_inv b"
| "writer_ok (Done line d) = True"

text \<open>A property \<open>Q\<close> of the line of a finished request.\<close>

fun done_sat :: "(gostring \<Rightarrow> bool) \<Rightarrow> 'w req_state \<Rightarrow> bool" where
  "done_sat Q (Running t1 b ops) = True"
| "done_sat Q (Done line d) = Q line"

definition srv_inv :: "'w server \<Rightarrow> 'w server \<Rightarrow> bool" where
  "srv_inv s0 s \<longleftrightarrow>
     take (length (out (env s0))) (out (env s)) = out (env s0) \<and>
     mset (drop (length (out (env s0))) (out (env s))) = mset (done_lines (reqs s)) \<and>
     mono (env s0) \<le> mono (env s) \<and> mono (env s) \<le> maxDuration \<and>
     list_all (\<lambda>(r, st). req_ok (mono (env s)) st) (reqs s)"

subsection \<open>Bookkeeping of the request list\<close>

lemma done_lines_append [simp]: "done_lines (xs @ ys) = done_lines xs @ done_lines ys"
  by (induction xs rule: done_lines.induct) simp_all

lemma done_lines_running [simp]: "done_lines [(r, Running t b ops)] = []"
  by simp

lemma done_lines_update_running:
  "i < length rs \<Longrightarrow> rs ! i = (r, Running t b ops) \<Longrightarrow>
   done_lines (rs[i := (r', Running t' b' ops')]) = done_lines rs"
proof (induction rs arbitrary: i)
  case (Cons x rs)
  obtain q st where x: "x = (q, st)" by fastforce
  show ?case
  proof (cases i)
    case (Suc k)
    then show ?thesis using Cons x by (cases st) auto
  qed (use Cons x in simp)
qed simp

lemma done_lines_update_done:
  "i < length rs \<Longrightarrow> rs ! i = (r, Running t b ops) \<Longrightarrow>
   mset (done_lines (rs[i := (r', Done l d)])) = add_mset l (mset (done_lines rs))"
proof (induction rs arbitrary: i)
  case (Cons x rs)
  obtain q st where x: "x = (q, st)" by fastforce
  show ?case
  proof (cases i)
    case 0
    then show ?thesis using Cons x by simp
  next
    case (Suc k)
    then show ?thesis using Cons x by (cases st) auto
  qed
qed simp

lemma req_ok_mono: "req_ok m st \<Longrightarrow> m \<le> m' \<Longrightarrow> req_ok m' st"
  by (cases st) auto

lemma writeLog_shape:
  "\<exists>l. writeLog fmt tb w req ts st sz d = w @ [l] \<and> l \<noteq> [] \<and> last l = 0x0A"
  by (cases fmt) (simp_all add: writeLog_def writeCommonLog_def writeCombinedLog_def Let_def)

lemma handlerStep_world:
  "handlerStep rw wd b op = (wd', b') \<Longrightarrow> mono wd \<le> mono wd' \<and> out wd' = out wd"
  by (cases op) (auto simp: handlerStep_def)

lemma list_all_update_pair:
  "list_all P rs \<Longrightarrow> P x \<Longrightarrow> list_all P (rs[i := x])"
  by (induction rs arbitrary: i) (auto split: nat.splits)

lemma list_all_req_ok_mono:
  "list_all (\<lambda>(r, st). req_ok m st) rs \<Longrightarrow> m \<le> m' \<Longrightarrow> list_all (\<lambda>(r, st). req_ok m' st) rs"
  by (induction rs) (auto intro: req_ok_mono)

lemma running_ok:
  "list_all (\<lambda>(r, st). req_ok m st) rs \<Longrightarrow> i < length rs \<Longrightarrow> rs ! i = (r, Running t1 b ops) \<Longrightarrow>
   0 \<le> mono_ns t1 \<and> mono_ns t1 \<le> m"
  by (metis (mono_tags, lifting) case_prodD list_all_length req_ok.simps(1))

lemma Sub_elapsed_bounds:
  assumes "0 \<le> mono_ns t1" "mono_ns t1 \<le> mono_ns t2" "mono_ns t2 \<le> maxDuration"
  shows "Sub t2 t1 = mono_ns t2 - mono_ns t1 \<and> 0 \<le> Sub t2 t1 \<and> Sub t2 t1 \<le> maxDuration"
proof -
  have "int64 (mono_ns t2)" "int64 (mono_ns t1)"
    using assms by (auto simp: int64_def minDuration_def maxDuration_def)
  then have "Sub t2 t1 = max minDuration (min maxDuration (mono_ns t2 - mono_ns t1))"
    by (rule Sub_saturating)
  then show ?thesis using assms by (simp add: minDuration_def maxDuration_def)
qed

subsection \<open>The invariant\<close>

lemma srv_step_inv:
  assumes "srv_step fmt tb rw hnd s s'" "srv_inv s0 s" "0 \<le> mono (env s0)"
  shows "srv_inv s0 s'"
  using assms(1)
proof cases
  case (accept r w)
  have "0 \<le> mono (env s)" using assms(2,3) by (simp add: srv_inv_def)
  then show ?thesis using assms(2) accept by (simp add: srv_inv_def Now_def)
next
  case (call i r t1 b op ops wd' b')
  have m: "mono (env s) \<le> mono wd'" "out wd' = out (env s)" using handlerStep_world [OF call(4)] by simp_all
  have "list_all (\<lambda>(r, st). req_ok (mono wd') st) (reqs s)"
    using assms(2) m(1) list_all_req_ok_mono by (auto simp: srv_inv_def)
  moreover have "req_ok (mono wd') (Running t1 b' ops)"
    using assms(2) running_ok [of "mono (env s)" "reqs s" i r t1 b "op # ops"] call m(1)
    by (auto simp: srv_inv_def)
  ultimately show ?thesis using assms(2) call m
    by (auto simp: srv_inv_def done_lines_update_running intro: list_all_update_pair)
next
  case (tick d)
  have "list_all (\<lambda>(r, st). req_ok (mono (env s) + int d) st) (reqs s)"
    using assms(2) list_all_req_ok_mono [of "mono (env s)" "reqs s" "mono (env s) + int d"]
    unfolding srv_inv_def by linarith
  then show ?thesis using assms(2) tick by (simp add: srv_inv_def)
next
  case (finish i r t1 b d w')
  obtain l where l: "w' = out (env s) @ [l]" "l \<noteq> []" "last l = 0x0A"
    using writeLog_shape [of fmt tb "out (env s)"] finish(5) by blast
  have t1: "0 \<le> mono_ns t1" "mono_ns t1 \<le> mono (env s)" "mono (env s) \<le> maxDuration"
    using assms(2) running_ok [of "mono (env s)" "reqs s" i r t1 b "[]"] finish by (auto simp: srv_inv_def)
  then have "0 \<le> d \<and> d \<le> maxDuration"
    using finish(4) Sub_elapsed_bounds [of t1 "Now (env s)"] by (simp add: Now_def)
  then have ok: "req_ok (mono (env s)) (Done (last w') d)" using l by simp
  have len: "length (out (env s0)) \<le> length (out (env s))"
    using assms(2) unfolding srv_inv_def by (metis length_take min.cobounded1)
  have "take (length (out (env s0))) w' = out (env s0)"
    using assms(2) l(1) len by (simp add: srv_inv_def)
  moreover have "mset (drop (length (out (env s0))) w') = add_mset (last w') (mset (done_lines (reqs s)))"
    using assms(2) l(1) len by (simp add: srv_inv_def)
  ultimately show ?thesis using assms(2) finish ok
    by (simp add: srv_inv_def done_lines_update_done list_all_update_pair)
qed

lemma done_lines_ok:
  "list_all (\<lambda>(r, st). req_ok m st) rs \<Longrightarrow> l \<in> set (done_lines rs) \<Longrightarrow> l \<noteq> [] \<and> last l = 0x0A"
  by (induction rs rule: done_lines.induct) auto

lemma done_ok:
  "list_all (\<lambda>(r, st). req_ok m st) rs \<Longrightarrow> (r, Done l d) \<in> set rs \<Longrightarrow> 0 \<le> d \<and> d \<le> maxDuration"
  by (fastforce simp: list_all_iff)

lemma srv_inv_init: "reqs s0 = [] \<Longrightarrow> mono (env s0) \<le> maxDuration \<Longrightarrow> srv_inv s0 s0"
  by (simp add: srv_inv_def)

lemma reach_srv_inv:
  assumes "reach fmt tb rw hnd s0 s" "reqs s0 = []" "0 \<le> mono (env s0)" "mono (env s0) \<le> maxDuration"
  shows "srv_inv s0 s"
  using assms(1)
proof induction
  case init
  show ?case using assms(2,4) by (rule srv_inv_init)
next
  case (step s s')
  then show ?case using assms(3) by (blast intro: srv_step_inv)
qed

subsection \<open>Progress\<close>

lemma reach_step_first:
  "reach fmt tb rw hnd s1 s' \<Longrightarrow> srv_step fmt tb rw hnd s s1 \<Longrightarrow> reach fmt tb rw hnd s s'"
  by (induction rule: reach.induct) (auto intro: reach.intros)

lemma handlerStep_mono:
  "handlerStep rw wd b op = (wd', b') \<Longrightarrow> mono wd' = mono wd + int (elapsedOf [op])"
  using runHandler_world [of rw wd b "[op]"] by (simp add: handlerStep_def)

lemma srv_can_finish:
  assumes "i < length (reqs s)" "reqs s ! i = (r, Running t1 b ops)"
    "mono (env s) + int (elapsedOf ops) \<le> maxDuration"
  shows "\<exists>s'. reach fmt tb rw hnd s s' \<and> (\<exists>l d. reqs s' ! i = (r, Done l d)) \<and>
           length (out (env s')) = Suc (length (out (env s)))"
  using assms
proof (induction ops arbitrary: s b)
  case Nil
  define d where "d = Sub (Now (env s)) t1"
  define w' where "w' = writeLog fmt tb (out (env s)) r (clfTime (env s) t1) (Status b) (BytesWritten b) d"
  let ?s' = "s\<lparr>env := (env s)\<lparr>out := w'\<rparr>, reqs := (reqs s)[i := (r, Done (last w') d)]\<rparr>"
  have "srv_step fmt tb rw hnd s ?s'"
    using Nil(1,2) d_def w'_def by (rule srv_step.finish)
  then have "reach fmt tb rw hnd s ?s'" by (blast intro: reach.intros)
  moreover have "length w' = Suc (length (out (env s)))"
  proof -
    obtain l where "w' = out (env s) @ [l]"
      using writeLog_shape [of fmt tb "out (env s)"] w'_def by blast
    then show ?thesis by simp
  qed
  ultimately show ?case using Nil(1) by auto
next
  case (Cons op ops)
  obtain wd' b' where h: "handlerStep rw (env s) b op = (wd', b')" by fastforce
  have m: "mono wd' = mono (env s) + int (elapsedOf [op])" "out wd' = out (env s)"
    using handlerStep_mono [OF h] handlerStep_world [OF h] by simp_all
  have e: "elapsedOf (op # ops) = elapsedOf [op] + elapsedOf ops" by (cases op) simp_all
  let ?s1 = "s\<lparr>env := wd', reqs := (reqs s)[i := (r, Running t1 b' ops)]\<rparr>"
  have st: "srv_step fmt tb rw hnd s ?s1"
    using Cons.prems(1,2) h Cons.prems(3) m(1) e by (intro srv_step.call) simp_all
  have "\<exists>s'. reach fmt tb rw hnd ?s1 s' \<and> (\<exists>l d. reqs s' ! i = (r, Done l d)) \<and>
           length (out (env s')) = Suc (length (out (env ?s1)))"
    using Cons.prems m e by (intro Cons.IH) simp_all
  then show ?case using st m(2) by (auto intro: reach_step_first)
qed

subsection \<open>The wrapped writers\<close>

lemma handlerStep_inv:
  "rw_counts rw \<Longrightarrow> bw_inv b \<Longrightarrow> handlerStep rw wd b op = (wd', b') \<Longrightarrow> bw_inv b'"
  using runHandler_inv [of rw b wd "[op]"] by (simp add: handlerStep_def)

lemma srv_step_writers:
  assumes "srv_step fmt tb rw hnd s s'" "rw_counts rw" "list_all (\<lambda>(r, st). writer_ok st) (reqs s)"
  shows "list_all (\<lambda>(r, st). writer_ok st) (reqs s')"
  using assms(1)
proof cases
  case (accept r w)
  then show ?thesis using assms(3) by (simp add: bw_inv_New)
next
  case (call i r t1 b op ops wd' b')
  have "bw_inv b" using assms(3) call(2,3) by (metis (mono_tags, lifting) case_prodD list_all_length writer_ok.simps(1))
  then have "bw_inv b'" using handlerStep_inv [OF assms(2) _ call(4)] by simp
  then show ?thesis using assms(3) call by (simp add: list_all_update_pair)
next
  case (tick d)
  then show ?thesis using assms(3) by simp
next
  case (finish i r t1 b d w')
  then show ?thesis using assms(3) by (simp add: list_all_update_pair)
qed

lemma reach_writers:
  "reach fmt tb rw hnd s0 s \<Longrightarrow> rw_counts rw \<Longrightarrow> reqs s0 = [] \<Longrightarrow> list_all (\<lambda>(r, st). writer_ok st) (reqs s)"
  by (induction rule: reach.induct) (auto intro: srv_step_writers)

subsection \<open>The lines of the finished requests\<close>

lemma writeLog_append: "writeLog fmt tb w req ts st sz d = w @ writeLog fmt tb [] req ts st sz d"
  by (cases fmt) (simp_all add: writeLog_def writeCommonLog_def writeCombinedLog_def Let_def)

lemma done_lines_mem: "l \<in> set (done_lines rs) \<Longrightarrow> \<exists>r d. (r, Done l d) \<in> set rs"
  by (induction rs rule: done_lines.induct) auto

text \<open>
  If every line the logger can write for a request with property \<open>P\<close> has
  property \<open>Q\<close>, every finished request with \<open>P\<close> logged a line with \<open>Q\<close>.
\<close>

lemma srv_step_done_sat:
  assumes "srv_step fmt tb rw hnd s s'" "\<And>r ts st sz d. P r \<Longrightarrow> Q (last (writeLog fmt tb [] r ts st sz d))"
    "list_all (\<lambda>(r, st). P r \<longrightarrow> done_sat Q st) (reqs s)"
  shows "list_all (\<lambda>(r, st). P r \<longrightarrow> done_sat Q st) (reqs s')"
  using assms(1)
proof cases
  case (finish i r t1 b d w')
  have "last w' = last (writeLog fmt tb [] r (clfTime (env s) t1) (Status b) (BytesWritten b) d)"
  proof -
    obtain l where "writeLog fmt tb [] r (clfTime (env s) t1) (Status b) (BytesWritten b) d = [l]"
      using writeLog_shape [of fmt tb "[]" r] by fastforce
    then show ?thesis using finish(5) by (subst (asm) writeLog_append) simp
  qed
  then have "P r \<longrightarrow> done_sat Q (Done (last w') d)" using assms(2) by simp
  then show ?thesis using assms(3) finish by (simp add: list_all_update_pair)
qed (use assms(3) in \<open>simp_all add: list_all_update_pair\<close>)

lemma reach_done_sat:
  "reach fmt tb rw hnd s0 s \<Longrightarrow> reqs s0 = [] \<Longrightarrow>
   (\<And>r ts st sz d. P r \<Longrightarrow> Q (last (writeLog fmt tb [] r ts st sz d))) \<Longrightarrow>
   list_all (\<lambda>(r, st). P r \<longrightarrow> done_sat Q st) (reqs s)"
  by (induction rule: reach.induct) (auto intro: srv_step_done_sat)

end
