(* ===== verification/Readme.thy ===== *)
theory Readme
  imports Middleware
begin

text \<open>
  The usage example of the README (src/unnamed/part_000, lines 20-43): a chi
  router with \<open>CombinedLogger(os.Stdout)\<close> and one route, \<open>GET /\<close>, whose
  handler writes \<open>Hello, World!\n\<close>, and the log line the README says it
  produces (\<open>readme_shown_line\<close>, line 43). The handler's script is its one \<open>Write\<close>; the time it takes is
  the environment's and a parameter. Only the route the example exercises is
  modelled: chi's routing itself is not. The theory also holds the data the
  witnesses of the development use: print tables and the README's request.
\<close>

subsection \<open>Example data\<close>

text \<open>
  Print tables that list no rune above U+00FF: with them \<open>IsPrint\<close> holds
  exactly for the printable Latin-1 runes. They instantiate the table
  parameter in the witnesses.
\<close>

definition latin1_tables :: print_tables where
  "latin1_tables = \<lparr>isPrint16 = [], isNotPrint16 = [], isPrint32 = [], isNotPrint32 = []\<rparr>"

text \<open>\<open>curl localhost:3000/\<close> from \<open>[::1]:54321\<close>, as net/http parses it.\<close>

definition example_request :: request where
  "example_request =
     \<lparr>Method = golit ''GET'',
      URL = \<lparr>Scheme = [], Opaque = [], User = None, Path = golit ''/'', RawPath = [], RawQuery = [],
             ForceQuery = False\<rparr>,
      Proto = golit ''HTTP/1.1'', ProtoMajor = 1,
      Header = [golit ''User-Agent'' \<mapsto> [golit ''curl/7.51.0'']],
      Host = golit ''localhost:3000'', RemoteAddr = golit ''[::1]:54321'', ReqURI = golit ''/''\<rparr>"

subsection \<open>The example program\<close>

text \<open>
  The handler of \<open>r.Get("/", ...)\<close>: \<open>w.Write([]byte("Hello, World!\n"))\<close>,
  taking \<open>d\<close> nanoseconds.
\<close>

definition helloHandler :: "nat \<Rightarrow> handler" where
  "helloHandler d r = [HWrite (golit ''Hello, World!'' @ [0x0A]), HElapse d]"

text \<open>\<open>r.Use(logger.CombinedLogger(os.Stdout))\<close> around it, for a request of that route.\<close>

definition readmeServe ::
  "print_tables \<Rightarrow> 'w respwriter_iface \<Rightarrow> nat \<Rightarrow> request \<Rightarrow> 'w \<Rightarrow> 'w world \<Rightarrow> 'w world \<times> 'w" where
  "readmeServe tb rw d r w wd = CombinedLogger tb rw (helloHandler d) r w wd"

text \<open>The clock of the README's run: 2017-01-02 19:07:27 UTC, zone +01:00.\<close>

definition readme_world :: "'w world" where
  "readme_world = \<lparr>mono = 0, wall = 1483384047 * 1000000000, zone = (\<lambda>_. 3600), out = []\<rparr>"

text \<open>The log line the README shows for the example (line 43).\<close>

definition readme_shown_line :: gostring where
  "readme_shown_line =
     golit ''::1 - - [02/Jan/2017:20:07:27 +0100] \"GET / HTTP/1.1\" 200 13 0.012ms \"\" \"curl/7.51.0\"''"

definition empty_recorder :: recorder where
  "empty_recorder = \<lparr>rec_code = None, rec_body = []\<rparr>"

lemma readme_world_out: "out readme_world = []"
  by (simp add: readme_world_def)

subsection \<open>What the handler is logged with\<close>

lemma helloHandler_observed:
  "statusOf f (helloHandler d r) = 200 \<and> bodyLen f (helloHandler d r) = 14 \<and>
   elapsedOf (helloHandler d r) = d"
  by (simp add: helloHandler_def)

end
