(* ===== verification/QuoteSafety.thy ===== *)
theory QuoteSafety
  imports Quote
begin

text \<open>
  What the escaper guarantees to a reader of the log. \<open>safe_byte\<close>: a byte
  that is neither an ASCII control character nor DEL. \<open>step_rune\<close> is the
  rune one iteration of \<open>appendQuoted\<close> reads, and \<open>step_rune_cases\<close> its
  three possible shapes. \<open>unquote\<close> is a reader of the escape syntax (the
  one of Go's \<open>strconv.Unquote\<close>, restricted to the escapes the escaper
  writes): it reads up to the first unescaped double quote, decoding
  the hexadecimal escapes (x, u, U) and the mnemonic ones.

  The lemmas show that whatever the Unicode tables, the output of
  \<open>appendQuoted\<close> has no control byte (so no newline can split a log line),
  and that \<open>unquote\<close> reads the output followed by a closing quote back to
  exactly the input: the quoted fields of a line can always be delimited and
  decoded, every quote and backslash of the input is escaped, and nothing is
  lost, including invalid UTF-8.
\<close>

unbundle bit_operations_syntax

subsection \<open>Definitions\<close>

definition safe_byte :: "byte \<Rightarrow> bool" where
  "safe_byte b \<longleftrightarrow> 0x20 \<le> uint b \<and> uint b \<noteq> 0x7F"

definition step_rune :: "gostring \<Rightarrow> rune \<times> nat" where
  "step_rune s = (if RuneSelf \<le> uint (hd s) then DecodeRuneInString s else (uint (hd s), 1))"

text \<open>The reader of the escape syntax.\<close>

definition hexval :: "byte \<Rightarrow> int option" where
  "hexval b =
     (let c = uint b in
      if 0x30 \<le> c \<and> c \<le> 0x39 then Some (c - 0x30)
      else if 0x61 \<le> c \<and> c \<le> 0x66 then Some (c - 0x61 + 10)
      else if 0x41 \<le> c \<and> c \<le> 0x46 then Some (c - 0x41 + 10)
      else None)"

fun hexnum :: "int \<Rightarrow> gostring \<Rightarrow> int option" where
  "hexnum acc [] = Some acc"
| "hexnum acc (d # ds) = (case hexval d of None \<Rightarrow> None | Some v \<Rightarrow> hexnum (acc * 16 + v) ds)"

definition mnemonics :: "(byte \<times> byte) list" where
  "mnemonics = zip (golit ''abfnrtv'') [7, 8, 0xC, 0xA, 0xD, 9, 0xB] @ [(dquote, dquote), (bslash, bslash)]"

definition unescape :: "gostring \<Rightarrow> (gostring \<times> nat) option" where
  "unescape cs =
     (case cs of
        [] \<Rightarrow> None
      | e # r \<Rightarrow>
          if e = of_char CHR ''x'' \<and> 2 \<le> length r then map_option (\<lambda>v. ([word_of_int v], 3)) (hexnum 0 (take 2 r))
          else if e = of_char CHR ''u'' \<and> 4 \<le> length r then map_option (\<lambda>v. (EncodeRune v, 5)) (hexnum 0 (take 4 r))
          else if e = of_char CHR ''U'' \<and> 8 \<le> length r then map_option (\<lambda>v. (EncodeRune v, 9)) (hexnum 0 (take 8 r))
          else map_option (\<lambda>b. ([b], 1)) (map_of mnemonics e))"

function unquote :: "gostring \<Rightarrow> (gostring \<times> gostring) option" where
  "unquote [] = None"
| "unquote (c # cs) =
     (if c = dquote then Some ([], cs)
      else if c = bslash then
        (case unescape cs of
           None \<Rightarrow> None
         | Some (bs, n) \<Rightarrow> map_option (\<lambda>(d, r). (bs @ d, r)) (unquote (drop n cs)))
      else map_option (\<lambda>(d, r). (c # d, r)) (unquote cs))"
  by pat_completeness auto
termination
  by (relation "measure length") auto

subsection \<open>No control bytes\<close>

lemma hex_digit: "drop_bit (4 * k) r AND 0xF = (r::int) div 16 ^ k mod 16"
proof -
  have "(16::int) ^ k = 2 ^ (4 * k)" by (simp add: power_mult)
  then show ?thesis by (simp add: byte_masks take_bit_eq_mask [symmetric] take_bit_eq_mod drop_bit_eq_div)
qed

lemma lowerhex_safe: "k < 16 \<Longrightarrow> safe_byte (lowerhex ! k)"
proof -
  have "list_all (\<lambda>k. safe_byte (lowerhex ! k)) [0..<16]"
    by code_simp
  moreover assume "k < 16"
  ultimately show ?thesis by (simp add: list_all_iff)
qed

lemma hex_nibble: "nat (drop_bit (4 * k) r AND 0xF) < 16"
  by (simp add: hex_digit nat_less_iff)

lemma byte_nibbles: "unat (drop_bit 4 (b :: byte)) < 16 \<and> unat (b AND 0xF) < (16::nat)"
proof -
  have "uint b div 16 < 16" using uint_byte_bound [of b] by linarith
  then show ?thesis
    by (simp add: unat_eq_nat_uint uint_drop_bit byte_masks uint_and_mask nat_less_iff)
qed

lemma hexDigits_safe: "list_all safe_byte (hexDigits n r)"
  by (simp add: hexDigits_def list_all_iff lowerhex_safe hex_nibble)

lemma hexEscape_safe: "list_all safe_byte (hexEscape b)"
  using byte_nibbles [of b] by (simp add: hexEscape_def lowerhex_safe) (simp add: safe_byte_def)

lemma quoteStep_Cons:
  "quoteStep tb (s0 # rest) =
     (let (r, width) = step_rune (s0 # rest) in
      if width = 1 \<and> r = RuneError then (hexEscape s0, width)
      else if r = 0x22 \<or> r = 0x5C then ([bslash, word_of_int r], width)
      else if IsPrint tb r then (EncodeRune r, width)
      else (escapeNonPrint r s0, width))"
  apply (subst quoteStep.simps)
  apply (subst step_rune_def)
  apply (subst list.sel)+
  apply (rule refl)
  done

lemma step_rune_cases:
  assumes "step_rune (s0 # rest) = (r, n)"
  obtains (ascii) "uint s0 < 0x80" "r = uint s0" "n = 1"
    | (invalid) "0x80 \<le> uint s0" "r = RuneError" "n = 1"
    | (multi) "ValidRune r" "0x80 \<le> r" "2 \<le> n" "n \<le> Suc (length rest)" "take n (s0 # rest) = EncodeRune r"
proof (cases "uint s0 < 0x80")
  case True
  then have "r = uint s0" "n = 1" using assms by (simp_all add: step_rune_def RuneSelf_def)
  with True show ?thesis by (rule ascii)
next
  case False
  then have d: "DecodeRuneInString (s0 # rest) = (r, n)" using assms by (simp add: step_rune_def RuneSelf_def)
  show ?thesis
  proof (cases "2 \<le> n")
    case True
    have "ValidRune r \<and> 0x80 \<le> r \<and> take n (s0 # rest) = EncodeRune r" using d True by (rule utf8_canonical)
    moreover have "n \<le> Suc (length rest)" using decode_shape [OF d] True by linarith
    ultimately show ?thesis using True multi by blast
  next
    case False
    then have "r = RuneError" "n = 1" using decode_shape [OF d] \<open>\<not> uint s0 < 0x80\<close> by auto
    moreover have "0x80 \<le> uint s0" using \<open>\<not> uint s0 < 0x80\<close> by simp
    ultimately show ?thesis by (intro invalid)
  qed
qed

lemma escapeNonPrint_safe: "list_all safe_byte (escapeNonPrint r s0)"
  by (simp add: escapeNonPrint_def hexEscape_safe hexDigits_safe) (simp add: safe_byte_def)

lemma encode_printable_safe:
  assumes "IsPrint tb r" "ValidRune r \<or> r < 0x80"
  shows "list_all safe_byte (EncodeRune r)"
proof (cases "r < 0x80")
  case True
  then have "0x20 \<le> r" "r \<le> 0x7E" using assms(1) by (auto simp: IsPrint_def split: if_splits)
  then show ?thesis by (simp add: encode_1 byte_val safe_byte_def)
next
  case False
  then have "\<forall>b \<in> set (EncodeRune r). 0x80 \<le> uint b" using assms(2) encode_high_bytes [of r] by simp
  then show ?thesis by (auto simp: list_all_iff safe_byte_def)
qed

lemma quoteStep_safe: "list_all safe_byte (fst (quoteStep tb s))"
proof (cases s)
  case (Cons s0 rest)
  obtain r n where sr: "step_rune (s0 # rest) = (r, n)" by fastforce
  have q: "quoteStep tb s =
      (if n = 1 \<and> r = RuneError then (hexEscape s0, n)
       else if r = 0x22 \<or> r = 0x5C then ([bslash, word_of_int r], n)
       else if IsPrint tb r then (EncodeRune r, n)
       else (escapeNonPrint r s0, n))"
    by (simp only: Cons quoteStep_Cons sr Let_def prod.case)
  have "ValidRune r \<or> r < 0x80"
    using sr by (cases rule: step_rune_cases) (simp_all add: RuneError_def ValidRune_def MaxRune_def)
  then show ?thesis unfolding q
    by (simp add: hexEscape_safe escapeNonPrint_safe encode_printable_safe) (auto simp: safe_byte_def)
qed simp

text \<open>A property of every piece a step emits, kept by concatenation, holds of the output.\<close>

lemma appendQuoted_pieces:
  assumes "P []" "\<And>a b. P a \<Longrightarrow> P b \<Longrightarrow> P (a @ b)" "\<And>s. s \<noteq> [] \<Longrightarrow> P (fst (quoteStep tb s))"
  shows "P (appendQuoted tb [] s)"
proof (induction "length s" arbitrary: s rule: less_induct)
  case less
  show ?case
  proof (cases "s = []")
    case False
    obtain ob w where q: "quoteStep tb s = (ob, w)" by fastforce
    have "1 \<le> w" using q False quoteStep_width by (cases s) auto
    then have "length (drop w s) < length s" using False by simp
    moreover have "appendQuoted tb [] s = ob @ appendQuoted tb [] (drop w s)"
      using appendQuoted_step [OF False q] appendQuoted_append by (metis append_Nil)
    moreover have "P ob" using assms(3) [OF False] q by simp
    ultimately show ?thesis using less assms(2) by simp
  qed (simp add: assms(1))
qed

lemma appendQuoted_safe: "list_all safe_byte (appendQuoted tb [] s)"
  by (rule appendQuoted_pieces) (simp_all add: quoteStep_safe)

subsection \<open>Reading the output back\<close>

lemma hexval_lowerhex: "k < 16 \<Longrightarrow> hexval (lowerhex ! k) = Some (int k)"
proof -
  have "list_all (\<lambda>k. hexval (lowerhex ! k) = Some (int k)) [0..<16]"
    by code_simp
  moreover assume "k < 16"
  ultimately show ?thesis by (simp add: list_all_iff)
qed

lemma hexnum_hexDigits: "hexnum acc (hexDigits n r) = Some (acc * 16 ^ n + r mod 16 ^ n)"
proof (induction n arbitrary: acc)
  case 0
  then show ?case by (simp add: hexDigits_def)
next
  case (Suc n)
  have d: "0 \<le> r div 16 ^ n mod 16" "r div 16 ^ n mod 16 < 16" by simp_all
  have "hexDigits (Suc n) r = lowerhex ! nat (r div 16 ^ n mod 16) # hexDigits n r"
    by (simp add: hexDigits_def hex_digit)
  moreover have "hexval (lowerhex ! nat (r div 16 ^ n mod 16)) = Some (r div 16 ^ n mod 16)"
    using d hexval_lowerhex [of "nat (r div 16 ^ n mod 16)"] by simp
  moreover have "r mod 16 ^ Suc n = 16 ^ n * (r div 16 ^ n mod 16) + r mod 16 ^ n"
  proof -
    have "r mod (16 ^ n * 16) = 16 ^ n * (r div 16 ^ n mod 16) + r mod 16 ^ n"
      by (rule zmod_zmult2_eq) simp
    then show ?thesis by (simp only: power_Suc2)
  qed
  ultimately show ?case using Suc.IH by (simp add: algebra_simps)
qed

lemma hexnum_hexDigits_exact:
  "0 \<le> r \<Longrightarrow> r < 16 ^ n \<Longrightarrow> hexnum 0 (hexDigits n r) = Some r"
  by (simp add: hexnum_hexDigits)

lemma length_hexDigits [simp]: "length (hexDigits n r) = n"
  by (simp add: hexDigits_def)

lemma unquote_plain_prefix:
  "\<forall>b \<in> set xs. b \<noteq> dquote \<and> b \<noteq> bslash \<Longrightarrow>
   unquote (xs @ rest) = map_option (\<lambda>(d, r). (xs @ d, r)) (unquote rest)"
  by (induction xs) (auto simp: option.map_comp comp_def case_prod_unfold option.map_ident)

lemma unquote_escape:
  "unescape (ys @ rest) = Some (bs, length ys) \<Longrightarrow>
   unquote (bslash # ys @ rest) = map_option (\<lambda>(d, r). (bs @ d, r)) (unquote rest)"
  by simp


lemma unescape_hexEscape: "unescape (tl (hexEscape b) @ rest) = Some ([b], 3)"
proof -
  have b: "uint b div 16 < 16" using uint_byte_bound [of b] by linarith
  have hi: "unat (drop_bit 4 b) < 16" "int (unat (drop_bit 4 b)) = uint b div 16"
    using b by (simp_all add: unat_eq_nat_uint uint_drop_bit nat_less_iff)
  have lo: "unat (b AND 0xF) < 16" "int (unat (b AND 0xF)) = uint b mod 16"
    by (simp_all add: unat_eq_nat_uint byte_masks uint_and_mask nat_less_iff)
  have "word_of_int (uint b div 16 * 16 + uint b mod 16) = b"
    by (metis div_mult_mod_eq word_of_int_uint)
  then show ?thesis
    using hexval_lowerhex [OF hi(1)] hexval_lowerhex [OF lo(1)] hi(2) lo(2)
    by (simp add: hexEscape_def unescape_def)
qed

lemma unescape_u:
  "0 \<le> r \<Longrightarrow> r < 16 ^ 4 \<Longrightarrow> unescape (golit ''u'' @ hexDigits 4 r @ rest) = Some (EncodeRune r, 5)"
  by (simp add: unescape_def hexnum_hexDigits)

lemma unescape_U:
  "0 \<le> r \<Longrightarrow> r < 16 ^ 8 \<Longrightarrow> unescape (golit ''U'' @ hexDigits 8 r @ rest) = Some (EncodeRune r, 9)"
  by (simp add: unescape_def hexnum_hexDigits)

lemma hexEscape_unquote:
  "unquote (hexEscape b @ tail) = map_option (\<lambda>(d, x). (b # d, x)) (unquote tail)"
proof -
  have "hexEscape b = bslash # tl (hexEscape b)" by (simp add: hexEscape_def)
  then have "unquote (hexEscape b @ tail) = unquote (bslash # tl (hexEscape b) @ tail)" by (metis append_Cons)
  also have "\<dots> = map_option (\<lambda>(d, x). ([b] @ d, x)) (unquote tail)"
    using unescape_hexEscape [of b tail] by (simp add: hexEscape_def)
  finally show ?thesis by simp
qed

lemma escape_control_unquote:
  assumes "0 \<le> r" "r < 0x20" "uint s0 = r"
  shows "unquote (escapeNonPrint r s0 @ tail) = map_option (\<lambda>(d, x). (s0 # d, x)) (unquote tail)"
proof (cases "r \<in> {7, 8, 9, 0xA, 0xB, 0xC, 0xD}")
  case True
  have s0: "s0 = word_of_int r" using assms(3) by (metis word_of_int_uint)
  from True show ?thesis
    by (auto simp: s0 escapeNonPrint_def unescape_def mnemonics_def)
next
  case False
  then have "escapeNonPrint r s0 = hexEscape s0" using assms(2) by (auto simp: escapeNonPrint_def)
  then show ?thesis by (simp add: hexEscape_unquote)
qed

lemma escape_del_unquote:
  assumes "uint s0 = 0x7F"
  shows "unquote (escapeNonPrint 0x7F s0 @ tail) = map_option (\<lambda>(d, x). (s0 # d, x)) (unquote tail)"
proof -
  have s0: "s0 = 0x7F" using assms by (metis word_of_int_uint of_int_numeral)
  have "unescape (golit ''u'' @ hexDigits 4 0x7F @ tail) = Some (EncodeRune 0x7F, 5)"
    by (rule unescape_u) simp_all
  moreover have "EncodeRune 0x7F = [0x7F]" by (simp add: encode_1)
  ultimately show ?thesis by (simp add: s0 escapeNonPrint_def MaxRune_def)
qed

lemma escape_rune_unquote:
  assumes "ValidRune r" "0x80 \<le> r"
  shows "unquote (escapeNonPrint r s0 @ tail) = map_option (\<lambda>(d, x). (EncodeRune r @ d, x)) (unquote tail)"
proof (cases "r < 0x10000")
  case True
  have "unescape (golit ''u'' @ hexDigits 4 r @ tail) = Some (EncodeRune r, 5)"
    using True assms by (intro unescape_u) simp_all
  then show ?thesis using True assms by (simp add: escapeNonPrint_def ValidRune_def MaxRune_def)
next
  case False
  have "unescape (golit ''U'' @ hexDigits 8 r @ tail) = Some (EncodeRune r, 9)"
    using assms by (intro unescape_U) (auto simp: ValidRune_def MaxRune_def)
  then show ?thesis using False assms by (simp add: escapeNonPrint_def ValidRune_def)
qed

lemma plain_unquote:
  "dquote \<notin> set xs \<Longrightarrow> bslash \<notin> set xs \<Longrightarrow>
   unquote (xs @ tail) = map_option (\<lambda>(d, x). (xs @ d, x)) (unquote tail)"
  by (rule unquote_plain_prefix) auto


lemma quoteStep_by_rune:
  assumes "step_rune (s0 # rest) = (r, n)"
  shows "quoteStep tb (s0 # rest) =
      (if n = 1 \<and> r = RuneError then (hexEscape s0, n)
       else if r = 0x22 \<or> r = 0x5C then ([bslash, word_of_int r], n)
       else if IsPrint tb r then (EncodeRune r, n)
       else (escapeNonPrint r s0, n))"
  by (simp only: quoteStep_Cons assms Let_def prod.case)

lemma ascii_classes:
  assumes "uint s0 < 0x80"
  obtains "uint s0 = 0x22 \<or> uint s0 = 0x5C" | "uint s0 \<noteq> 0x22" "uint s0 \<noteq> 0x5C" "0x20 \<le> uint s0" "uint s0 \<le> 0x7E"
      | "uint s0 < 0x20" | "uint s0 = 0x7F"
  using assms by linarith


lemma quoteStep_ascii_unquote:
  assumes "uint s0 < 0x80" "quoteStep tb (s0 # rest) = (out, w)"
  shows "unquote (out @ tail) = map_option (\<lambda>(d, x). (s0 # d, x)) (unquote tail) \<and> w = 1"
proof -
  have sr: "step_rune (s0 # rest) = (uint s0, 1)" using assms(1) by (simp add: step_rune_def RuneSelf_def)
  have q: "(out, w) =
      (if uint s0 = 0x22 \<or> uint s0 = 0x5C then ([bslash, s0], 1)
       else if IsPrint tb (uint s0) then (EncodeRune (uint s0), 1)
       else (escapeNonPrint (uint s0) s0, 1))"
    using quoteStep_by_rune [OF sr, of tb] assms by (auto simp: RuneError_def byte_eq_iff_uint simp del: quoteStep.simps)
  from assms(1) show ?thesis
  proof (cases rule: ascii_classes)
    case 1
    then have "out = [bslash, s0]" "w = 1" using q by auto
    moreover have "s0 = dquote \<or> s0 = bslash" using 1 by (auto simp: byte_eq_iff_uint)
    ultimately show ?thesis by (auto simp: unescape_def mnemonics_def)
  next
    case 2
    then have "IsPrint tb (uint s0)" by (simp add: IsPrint_def)
    then have "out = [s0]" "w = 1" using q 2 by (simp_all add: encode_1)
    moreover have "s0 \<noteq> dquote" "s0 \<noteq> bslash" using 2 by (auto simp: byte_eq_iff_uint)
    ultimately show ?thesis by simp
  next
    case 3
    then have "\<not> IsPrint tb (uint s0)" by (simp add: IsPrint_def)
    then have "out = escapeNonPrint (uint s0) s0" "w = 1" using q 3 by auto
    then show ?thesis using escape_control_unquote [of "uint s0" s0 tail] 3 by simp
  next
    case 4
    then have "\<not> IsPrint tb (uint s0)" by (simp add: IsPrint_def)
    then have "out = escapeNonPrint 0x7F s0" "w = 1" using q 4 by auto
    then show ?thesis using escape_del_unquote [of s0 tail] 4 by simp
  qed
qed


lemma quoteStep_high_unquote:
  assumes "0x80 \<le> uint s0" "quoteStep tb (s0 # rest) = (out, w)"
  shows "unquote (out @ tail) = map_option (\<lambda>(d, x). (take w (s0 # rest) @ d, x)) (unquote tail)"
proof -
  obtain r n where sr: "step_rune (s0 # rest) = (r, n)" by fastforce
  have q: "(out, w) =
      (if n = 1 \<and> r = RuneError then (hexEscape s0, n)
       else if r = 0x22 \<or> r = 0x5C then ([bslash, word_of_int r], n)
       else if IsPrint tb r then (EncodeRune r, n)
       else (escapeNonPrint r s0, n))"
    using quoteStep_by_rune [OF sr, of tb] assms(2) by (simp del: quoteStep.simps)
  from sr show ?thesis
  proof (cases rule: step_rune_cases)
    case ascii
    then show ?thesis using assms(1) by simp
  next
    case invalid
    then have "out = hexEscape s0" "w = 1" using q by simp_all
    then show ?thesis by (simp add: hexEscape_unquote)
  next
    case multi
    then have nq: "\<not> (r = 0x22 \<or> r = 0x5C)" "\<not> (n = 1 \<and> r = RuneError)" by auto
    show ?thesis
    proof (cases "IsPrint tb r")
      case True
      then have "out = EncodeRune r" "w = n" using q nq by (auto split: if_splits)
      moreover have "dquote \<notin> set (EncodeRune r)" "bslash \<notin> set (EncodeRune r)"
        using encode_high_bytes [of r] multi by (auto simp: byte_eq_iff_uint)
      ultimately show ?thesis using multi(5) by (simp add: plain_unquote)
    next
      case False
      then have "out = escapeNonPrint r s0" "w = n" using q nq by (auto split: if_splits)
      then show ?thesis using escape_rune_unquote [of r s0 tail] multi by simp
    qed
  qed
qed

lemma quoteStep_unquote:
  assumes "quoteStep tb (s0 # rest) = (out, w)"
  shows "unquote (out @ tail) = map_option (\<lambda>(d, x). (take w (s0 # rest) @ d, x)) (unquote tail)"
proof (cases "uint s0 < 0x80")
  case True
  then show ?thesis using quoteStep_ascii_unquote [OF True assms, of tail] by simp
next
  case False
  then show ?thesis using quoteStep_high_unquote [OF _ assms] by simp
qed

lemma appendQuoted_unquote_gen:
  "unquote (appendQuoted tb [] s @ tail) = map_option (\<lambda>(d, x). (s @ d, x)) (unquote tail)"
proof (induction "length s" arbitrary: s rule: less_induct)
  case less
  show ?case
  proof (cases s)
    case (Cons s0 t)
    obtain out w where q: "quoteStep tb s = (out, w)" by fastforce
    have "1 \<le> w" using q Cons quoteStep_width by auto
    then have "length (drop w s) < length s" using Cons by simp
    then have ih: "unquote (appendQuoted tb [] (drop w s) @ tail) =
        map_option (\<lambda>(d, x). (drop w s @ d, x)) (unquote tail)"
      by (rule less)
    have "appendQuoted tb [] s = out @ appendQuoted tb [] (drop w s)"
      using appendQuoted_step [of s tb out w "[]"] Cons q appendQuoted_append by (metis append_Nil list.distinct(1))
    then show ?thesis using quoteStep_unquote [of tb s0 t out w] q Cons ih
      by (simp add: option.map_comp comp_def case_prod_unfold take_drop_append)
  qed (simp add: option.map_ident case_prod_unfold)
qed

theorem appendQuoted_unquote: "unquote (appendQuoted tb [] s @ dquote # rest) = Some (s, rest)"
  by (simp add: appendQuoted_unquote_gen)

lemma appendQuoted_Cons_step:
  "quoteStep tb (s0 # rest) = (ob, w) \<Longrightarrow>
   appendQuoted tb [] (s0 # rest) = ob @ appendQuoted tb [] (drop w (s0 # rest))"
  using appendQuoted_step [of "s0 # rest" tb ob w "[]"] appendQuoted_append by (metis append_Nil list.distinct(1))

end
