(* ===== verification/LogParse.thy ===== *)
theory LogParse
  imports LogLine QuoteSafety "HOL-Library.Monad_Syntax"
begin

text \<open>
  A reader of the log format, written from the format the specification
  gives (sections 4.2, 4.3 and 8), not from the code. \<open>parseHead\<close> reads the
  fields of a Common line up to the latency:
  \<^item> the host up to the first space, then \<open>- \<close>;
  \<^item> the user up to the next space;
  \<^item> the timestamp between brackets;
  \<^item> the request line between quotes, decoded by \<open>unquote\<close>;
  \<^item> the status and the size, each ended by a space.
  \<open>parseCommonEntry\<close> reads a whole written Common entry: the head, then the
  latency up to the newline. \<open>parseCombinedEntry\<close> reads a Combined entry:
  the head, the latency, then the two quoted fields and the newline.

  The lemmas show that every entry the logger writes is read back to exactly
  the fields it was built from: the request line as method, target and
  protocol, and the referrer and user agent, whatever they contain. The
  hypotheses are the only conditions the format needs: host and user
  without a space, and method and protocol without a quote or a backslash.
  The other fields are shown to meet them: \<open>Itoa\<close> and \<open>prettyDuration\<close>
  print no space, the timestamp no bracket.
\<close>

definition cutAt :: "byte \<Rightarrow> gostring \<Rightarrow> (gostring \<times> gostring) option" where
  "cutAt c s = (if c \<in> set s then Some (takeWhile (\<lambda>b. b \<noteq> c) s, tl (dropWhile (\<lambda>b. b \<noteq> c) s)) else None)"

definition expect :: "gostring \<Rightarrow> gostring \<Rightarrow> gostring option" where
  "expect p s = (if take (length p) s = p then Some (drop (length p) s) else None)"

record clf_head =
  f_host :: gostring
  f_user :: gostring
  f_time :: gostring
  f_request :: gostring
  f_status :: gostring
  f_size :: gostring

definition parseHead :: "gostring \<Rightarrow> (clf_head \<times> gostring) option" where
  "parseHead l = do {
     (host, r) \<leftarrow> cutAt 0x20 l;
     r \<leftarrow> expect (golit ''- '') r;
     (user, r) \<leftarrow> cutAt 0x20 r;
     r \<leftarrow> expect [lbrack] r;
     (ts, r) \<leftarrow> cutAt rbrack r;
     r \<leftarrow> expect [0x20, dquote] r;
     (reqline, r) \<leftarrow> unquote r;
     r \<leftarrow> expect [0x20] r;
     (st, r) \<leftarrow> cutAt 0x20 r;
     (sz, r) \<leftarrow> cutAt 0x20 r;
     Some (\<lparr>f_host = host, f_user = user, f_time = ts, f_request = reqline, f_status = st, f_size = sz\<rparr>, r)
   }"

definition parseCommonEntry :: "gostring \<Rightarrow> (clf_head \<times> gostring) option" where
  "parseCommonEntry e = do {
     (h, r) \<leftarrow> parseHead e;
     (dl, r) \<leftarrow> cutAt 0x0A r;
     if r = [] then Some (h, dl) else None
   }"

definition parseCombinedEntry :: "gostring \<Rightarrow> (clf_head \<times> gostring \<times> gostring \<times> gostring) option" where
  "parseCombinedEntry e = do {
     (h, r) \<leftarrow> parseHead e;
     (dl, r) \<leftarrow> cutAt 0x20 r;
     r \<leftarrow> expect [dquote] r;
     (ref, r) \<leftarrow> unquote r;
     r \<leftarrow> expect [0x20, dquote] r;
     (ua, r) \<leftarrow> unquote r;
     if r = [0x0A] then Some (h, dl, ref, ua) else None
   }"

subsection \<open>Reading the fields\<close>

lemma cutAt_append: "c \<notin> set a \<Longrightarrow> cutAt c (a @ c # b) = Some (a, b)"
  by (simp add: cutAt_def takeWhile_append dropWhile_append)

lemma expect_append: "expect p (p @ s) = Some s"
  by (simp add: expect_def)

lemma expect_Nil: "expect [] s = Some s"
  and expect_Cons_Cons: "expect (a # p) (b # s) = (if a = b then expect p s else None)"
  by (simp_all add: expect_def)

lemma parseHead_line:
  assumes "0x20 \<notin> set (logHost (RemoteAddr req))" "0x20 \<notin> set (logUsername (URL req))"
    "dquote \<notin> set (Method req)" "bslash \<notin> set (Method req)"
    "dquote \<notin> set (Proto req)" "bslash \<notin> set (Proto req)"
  shows "parseHead (buildCommonLogLine tb req ts st sz d @ rest) =
           Some (\<lparr>f_host = logHost (RemoteAddr req), f_user = logUsername (URL req), f_time = FormatCLF ts,
                  f_request = Method req @ golit '' '' @ logURI req @ golit '' '' @ Proto req,
                  f_status = Itoa st, f_size = Itoa sz\<rparr>, prettyDuration d @ rest)"
proof -
  have u: "unquote (Method req @ golit '' '' @ appendQuoted tb [] (logURI req) @ golit '' '' @ Proto req @
             [dquote] @ tl) = Some (Method req @ golit '' '' @ logURI req @ golit '' '' @ Proto req, tl)" for tl
    using plain_unquote [of "Method req"] plain_unquote [of "Proto req"] assms(3-6)
    by (simp add: appendQuoted_unquote_gen)
  show ?thesis
    unfolding buildCommonLogLine_shape parseHead_def
    using assms(1,2) u [of "golit '' '' @ Itoa st @ golit '' '' @ Itoa sz @ golit '' '' @ prettyDuration d @ rest"]
      Itoa_no_space [of st] Itoa_no_space [of sz] FormatCLF_no_rbrack [of ts]
    by (simp add: cutAt_append expect_Nil expect_Cons_Cons)
qed

lemma parseCommonEntry_line:
  assumes "0x20 \<notin> set (logHost (RemoteAddr req))" "0x20 \<notin> set (logUsername (URL req))"
    "dquote \<notin> set (Method req)" "bslash \<notin> set (Method req)"
    "dquote \<notin> set (Proto req)" "bslash \<notin> set (Proto req)"
  shows "parseCommonEntry (last (writeCommonLog tb w req ts st sz d)) =
           Some (\<lparr>f_host = logHost (RemoteAddr req), f_user = logUsername (URL req), f_time = FormatCLF ts,
                  f_request = Method req @ golit '' '' @ logURI req @ golit '' '' @ Proto req,
                  f_status = Itoa st, f_size = Itoa sz\<rparr>, prettyDuration d)"
  using parseHead_line [OF assms, of tb ts st sz d "[0x0A]"] prettyDuration_no_space_nl [of d]
  by (simp add: parseCommonEntry_def writeCommonLog_def cutAt_append)

lemma parseCombinedEntry_line:
  assumes "0x20 \<notin> set (logHost (RemoteAddr req))" "0x20 \<notin> set (logUsername (URL req))"
    "dquote \<notin> set (Method req)" "bslash \<notin> set (Method req)"
    "dquote \<notin> set (Proto req)" "bslash \<notin> set (Proto req)"
  shows "parseCombinedEntry (last (writeCombinedLog tb w req ts st sz d)) =
           Some (\<lparr>f_host = logHost (RemoteAddr req), f_user = logUsername (URL req), f_time = FormatCLF ts,
                  f_request = Method req @ golit '' '' @ logURI req @ golit '' '' @ Proto req,
                  f_status = Itoa st, f_size = Itoa sz\<rparr>, prettyDuration d, Referer req, UserAgent req)"
proof -
  let ?tail = "[0x20, dquote] @ appendQuoted tb [] (Referer req) @
     [dquote, 0x20, dquote] @ appendQuoted tb [] (UserAgent req) @ [dquote, 0x0A]"
  have "unquote (appendQuoted tb [] (Referer req) @ [dquote, 0x20, dquote] @ appendQuoted tb [] (UserAgent req) @ [dquote, 0x0A])
        = Some (Referer req, [0x20, dquote] @ appendQuoted tb [] (UserAgent req) @ [dquote, 0x0A])"
    "unquote (appendQuoted tb [] (UserAgent req) @ [dquote, 0x0A]) = Some (UserAgent req, [0x0A])"
    by (simp_all add: appendQuoted_unquote_gen)
  then show ?thesis
    using parseHead_line [OF assms, of tb ts st sz d ?tail] prettyDuration_no_space_nl [of d]
    by (simp add: writeCombinedLog_shape parseCombinedEntry_def cutAt_append expect_Nil expect_Cons_Cons)
qed

end
