(* ===== verification/QuoteLoop.thy ===== *)
theory QuoteLoop
  imports Quote "HOL-Library.While_Combinator"
begin

text \<open>
  The two loops of \<open>appendQuoted\<close> (src/logger.go) kept in the shape the
  source gives them. \<open>quoteLoop\<close> is the outer \<open>for\<close> of lines 62-120 as a
  \<open>while_option\<close> over the pair (buffer, rest of the input): the guard is
  \<open>len(s) > 0\<close>, the body one \<open>quoteStep\<close>, the post statement
  \<open>s = s[width:]\<close> (every \<open>continue\<close> reaches it). \<open>hexLoop\<close> is the shift
  loop \<open>for s := 12; s >= 0; s -= 4\<close> of lines 110-112 (and its 28-bit
  twin, lines 115-117), a \<open>function\<close> whose termination measure is the
  distance of the shift to \<open>-4\<close>.

  The lemmas show that the outer loop exits on every input, with the buffer
  the recursive \<open>appendQuoted\<close> computes (halting by a measure, correctness
  by an invariant, as \<open>while_option\<close> proofs go), and that the shift loop
  writes exactly the digits \<open>hexDigits\<close> maps over.
\<close>

unbundle bit_operations_syntax

subsection \<open>The loops\<close>

definition quoteBody :: "print_tables \<Rightarrow> gostring \<times> gostring \<Rightarrow> gostring \<times> gostring" where
  "quoteBody tb st = (case st of (buf, s) \<Rightarrow> (case quoteStep tb s of (ob, width) \<Rightarrow> (buf @ ob, drop width s)))"

definition quoteLoop :: "print_tables \<Rightarrow> gostring \<Rightarrow> gostring \<Rightarrow> (gostring \<times> gostring) option" where
  "quoteLoop tb buf s = while_option (\<lambda>(buf, s). s \<noteq> []) (quoteBody tb) (buf, s)"

function hexLoop :: "rune \<Rightarrow> int \<Rightarrow> gostring \<Rightarrow> gostring" where
  "hexLoop r sh buf =
     (if sh < 0 then buf else hexLoop r (sh - 4) (buf @ [lowerhex ! nat (drop_bit (nat sh) r AND 0xF)]))"
  by pat_completeness auto
termination
  by (relation "measure (\<lambda>(r, sh, buf). nat (sh + 4))") auto

declare hexLoop.simps [simp del]

subsection \<open>The outer loop exits\<close>

lemma quoteBody_shrinks:
  assumes "s \<noteq> []" "quoteBody tb (buf, s) = (b', s')"
  shows "length s' < length s"
proof -
  obtain ob w where q: "quoteStep tb s = (ob, w)" by fastforce
  have "1 \<le> w" using q assms(1) quoteStep_width by (cases s) auto
  then show ?thesis using q assms by (auto simp: quoteBody_def)
qed

lemma quoteBody_keeps:
  "s \<noteq> [] \<Longrightarrow> quoteBody tb (buf, s) = (b', s') \<Longrightarrow> appendQuoted tb b' s' = appendQuoted tb buf s"
  by (auto simp: quoteBody_def appendQuoted_step split: prod.splits)

lemma quoteLoop_halts: "\<exists>st. quoteLoop tb buf s = Some st"
  unfolding quoteLoop_def
  by (rule measure_while_option_Some [where P = "\<lambda>_. True" and f = "\<lambda>(buf, s). length s"])
     (auto simp: quoteBody_shrinks split: prod.splits)

lemma quoteLoop_result: "quoteLoop tb buf s = Some (appendQuoted tb buf s, [])"
proof -
  obtain st where r: "while_option (\<lambda>(buf, s). s \<noteq> []) (quoteBody tb) (buf, s) = Some st"
    using quoteLoop_halts [of tb buf s] by (auto simp: quoteLoop_def)
  obtain buf' s' where st: "st = (buf', s')" by fastforce
  have "(\<lambda>(b, t). appendQuoted tb b t = appendQuoted tb buf s) st"
    by (rule while_option_rule [OF _ r]) (auto simp: quoteBody_keeps split: prod.splits)
  moreover have "s' = []" using while_option_stop [OF r] st by simp
  ultimately show ?thesis using r st by (simp add: quoteLoop_def)
qed

subsection \<open>The shift loop\<close>

lemma hexLoop_digits: "hexLoop r (4 * int k) buf = buf @ hexDigits (Suc k) r"
proof (induction k arbitrary: buf)
  case 0
  have "hexLoop r (- 4) b = b" for b by (simp add: hexLoop.simps)
  then show ?case by (simp add: hexLoop.simps hexDigits_def)
next
  case (Suc k)
  have "hexLoop r (4 * int (Suc k)) buf =
        hexLoop r (4 * int k) (buf @ [lowerhex ! nat (drop_bit (4 * Suc k) r AND 0xF)])"
  proof -
    have "nat (4 + 4 * int k) = 4 * Suc k" by simp
    then show ?thesis by (subst hexLoop.simps) simp
  qed
  then show ?case using Suc by (simp add: hexDigits_def)
qed

end
