(* ===== verification/ValidUtf8.thy ===== *)
theory ValidUtf8
  imports LogLine QuoteSafety
begin

text \<open>
  The type of the log line: Go's \<open>utf8.ValidString\<close>, read from its
  documentation (the string consists entirely of valid UTF-8-encoded runes)
  as repeated \<open>DecodeRuneInString\<close>, none of whose steps reports the
  \<open>(RuneError, 1)\<close> of an invalid byte. A decoded U+FFFD of width three is
  valid: it is the encoding of that rune.

  The lemmas show: an ASCII byte and the encoding of a valid rune are valid
  and are skipped by the decoder whatever follows; validity is preserved by
  concatenation; every piece \<open>quoteStep\<close> emits is valid (the escapes are
  ASCII, a printable rune is copied as its own encoding), so the output of
  \<open>appendQuoted\<close> is valid UTF-8 for every input, invalid input included;
  and the timestamp, status, size and latency fields are ASCII. Hence a log
  line is valid UTF-8 whenever the four fields copied without escaping are.
  In the same way a write carries exactly one line: its only newline is the
  final one, whenever those four fields have none.
\<close>

subsection \<open>Valid UTF-8\<close>

function ValidString :: "gostring \<Rightarrow> bool" where
  "ValidString [] = True"
| "ValidString (b # s) =
     (case DecodeRuneInString (b # s) of
        (r, n) \<Rightarrow> \<not> (r = RuneError \<and> n = 1) \<and> ValidString (drop n (b # s)))"
  by pat_completeness auto
termination
proof (relation "measure length", goal_cases)
  case 1
  show ?case by simp
next
  case (2 b s r n)
  then have "DecodeRuneInString (b # s) = (r, n)" by simp
  then have "1 \<le> n" using decode_shape by fastforce
  then show ?case by simp
qed

definition is_ascii :: "byte \<Rightarrow> bool" where
  "is_ascii b \<longleftrightarrow> uint b < 0x80"

text \<open>
  A byte string that is one line; and a request whose fields copied without
  escaping (host, user name, method, protocol) hold no newline.
\<close>

definition single_line :: "gostring \<Rightarrow> bool" where
  "single_line l \<longleftrightarrow> l \<noteq> [] \<and> last l = 0x0A \<and> 0x0A \<notin> set (butlast l)"

definition nl_free_fields :: "request \<Rightarrow> bool" where
  "nl_free_fields req \<longleftrightarrow>
     0x0A \<notin> set (logHost (RemoteAddr req)) \<and> 0x0A \<notin> set (logUsername (URL req)) \<and>
     0x0A \<notin> set (Method req) \<and> 0x0A \<notin> set (Proto req)"

subsection \<open>Decoding over valid pieces\<close>

lemma decode_ascii: "uint b < 0x80 \<Longrightarrow> DecodeRuneInString (b # t) = (uint b, 1)"
  by (simp add: DecodeRuneInString_ref)

lemma ValidString_ascii: "is_ascii b \<Longrightarrow> ValidString (b # t) = ValidString t"
  by (simp add: is_ascii_def decode_ascii RuneError_def)

lemma ValidString_ascii_append: "list_all is_ascii xs \<Longrightarrow> ValidString (xs @ t) = ValidString t"
  by (induction xs) (simp_all add: ValidString_ascii del: ValidString.simps(2))

lemma ValidString_encode:
  assumes "ValidRune r"
  shows "ValidString (EncodeRune r @ t) = ValidString t"
proof -
  have "EncodeRune r \<noteq> []" by (simp add: EncodeRune_def Let_def)
  then obtain e0 es where e: "EncodeRune r = e0 # es" by (cases "EncodeRune r") auto
  have d: "DecodeRuneInString (EncodeRune r @ t) = (r, length (EncodeRune r))"
    using assms by (rule utf8_roundtrip)
  have "\<not> (r = RuneError \<and> length (EncodeRune r) = 1)"
  proof
    assume a: "r = RuneError \<and> length (EncodeRune r) = 1"
    then have "0x80 \<le> r" by (simp add: RuneError_def)
    then have "2 \<le> length (EncodeRune r)" using encode_high_bytes [OF assms] by simp
    moreover have "length (EncodeRune r) = 1" using a by blast
    ultimately show False by simp
  qed
  then show ?thesis using d e by simp
qed

lemma ValidString_append: "ValidString xs \<Longrightarrow> ValidString (xs @ t) = ValidString t"
proof (induction "length xs" arbitrary: xs rule: less_induct)
  case less
  show ?case
  proof (cases xs)
    case (Cons b s)
    obtain r n where d: "DecodeRuneInString (b # s) = (r, n)" by fastforce
    have v: "\<not> (r = RuneError \<and> n = 1)" "ValidString (drop n (b # s))"
      using less.prems d Cons by simp_all
    from decode_shape [OF d] show ?thesis
    proof
      assume a: "n = 1 \<and> r = (if uint b < 0x80 then uint b else RuneError)"
      then have "uint b < 0x80" using v(1) by (auto split: if_splits)
      then have "ValidString (b # s @ t) = ValidString (s @ t)" by (simp add: ValidString_ascii is_ascii_def del: ValidString.simps(2))
      moreover have "ValidString (s @ t) = ValidString t" using less.hyps [of s] v(2) a Cons by simp
      ultimately show ?thesis using Cons by simp
    next
      assume a: "2 \<le> n \<and> n \<le> Suc (length s)"
      then have c: "ValidRune r \<and> take n (b # s) = EncodeRune r" using utf8_canonical [OF d] by simp
      then have eq: "b # s @ t = EncodeRune r @ (drop n (b # s) @ t)"
        by (metis append.assoc append_Cons append_take_drop_id)
      have "ValidString (b # s @ t) = ValidString (EncodeRune r @ (drop n (b # s) @ t))"
        by (simp only: eq)
      then have "ValidString (b # s @ t) = ValidString (drop n (b # s) @ t)"
        using ValidString_encode c by simp
      moreover have "ValidString (drop n (b # s) @ t) = ValidString t"
        using less.hyps [of "drop n (b # s)"] v(2) a Cons by simp
      ultimately show ?thesis using Cons by simp
    qed
  qed simp
qed

lemma ValidString_concat2: "ValidString xs \<Longrightarrow> ValidString ys \<Longrightarrow> ValidString (xs @ ys)"
  by (simp add: ValidString_append)

lemma ValidString_asciiI: "list_all is_ascii xs \<Longrightarrow> ValidString xs"
  using ValidString_ascii_append [of xs "[]"] by simp

lemma ascii_subset: "set xs \<subseteq> set ys \<Longrightarrow> list_all is_ascii ys \<Longrightarrow> list_all is_ascii xs"
  by (auto simp: list_all_iff)

subsection \<open>The escaper emits valid UTF-8\<close>

lemma lowerhex_ascii: "k < 16 \<Longrightarrow> is_ascii (lowerhex ! k)"
proof -
  have "list_all is_ascii lowerhex" by (simp add: lowerhex_def is_ascii_def)
  moreover assume "k < 16"
  ultimately show ?thesis by (simp add: list_all_length lowerhex_def)
qed

lemma hexEscape_ascii: "list_all is_ascii (hexEscape b)"
  using byte_nibbles [of b] by (simp add: hexEscape_def lowerhex_ascii) (simp add: is_ascii_def)

lemma escapeNonPrint_ascii: "list_all is_ascii (escapeNonPrint r s0)"
proof -
  have "list_all is_ascii (hexDigits n x)" for n x
    by (simp add: hexDigits_def list_all_iff lowerhex_ascii hex_nibble)
  then show ?thesis by (simp add: escapeNonPrint_def hexEscape_ascii) (simp add: is_ascii_def)
qed

lemma quoteStep_valid: "ValidString (fst (quoteStep tb s))"
proof (cases s)
  case (Cons s0 rest)
  obtain r n where sr: "step_rune (s0 # rest) = (r, n)" by fastforce
  have q: "quoteStep tb s =
      (if n = 1 \<and> r = RuneError then (hexEscape s0, n)
       else if r = 0x22 \<or> r = 0x5C then ([bslash, word_of_int r], n)
       else if IsPrint tb r then (EncodeRune r, n)
       else (escapeNonPrint r s0, n))"
    by (simp only: Cons quoteStep_Cons sr Let_def prod.case)
  have p: "ValidString (EncodeRune r)" if "\<not> (n = 1 \<and> r = RuneError)"
  proof -
    have "ValidRune r" using sr that by (cases rule: step_rune_cases) (simp_all add: ValidRune_def)
    then show ?thesis using ValidString_encode [of r "[]"] by simp
  qed
  have b: "ValidString [bslash, word_of_int r]" if "r = 0x22 \<or> r = 0x5C"
  proof (rule ValidString_asciiI)
    show "list_all is_ascii [bslash, word_of_int r]" using that by (auto simp: is_ascii_def)
  qed
  have "ValidString (hexEscape s0)" "ValidString (escapeNonPrint r s0)"
    by (simp_all add: ValidString_asciiI hexEscape_ascii escapeNonPrint_ascii del: ValidString.simps(2))
  with p b show ?thesis unfolding q by (simp del: ValidString.simps(2))
qed simp

lemma appendQuoted_valid: "ValidString (appendQuoted tb [] s)"
  by (rule appendQuoted_pieces) (simp_all add: ValidString_concat2 quoteStep_valid)

subsection \<open>The log line\<close>

lemma fields_ascii:
  "list_all is_ascii (FormatCLF t) \<and> list_all is_ascii (Itoa i) \<and> list_all is_ascii (prettyDuration d)"
proof -
  have "list_all is_ascii clf_chars" "list_all is_ascii decimal_chars" "list_all is_ascii duration_chars"
    by (simp_all add: clf_chars_def decimal_chars_def duration_chars_def shortMonthNames_def is_ascii_def)
  then show ?thesis using FormatCLF_chars Itoa_chars prettyDuration_chars ascii_subset by blast
qed

lemma buildCommonLogLine_valid:
  assumes "ValidString (logHost (RemoteAddr req))" "ValidString (logUsername (URL req))"
    "ValidString (Method req)" "ValidString (Proto req)"
  shows "ValidString (buildCommonLogLine tb req ts st sz d)"
  unfolding buildCommonLogLine_shape using assms fields_ascii [of ts st d] fields_ascii [of ts sz d]
  by (simp add: ValidString_append ValidString_ascii ValidString_ascii_append ValidString_asciiI appendQuoted_valid is_ascii_def
      del: ValidString.simps(2))

lemma writeCombinedLog_valid:
  assumes "ValidString (logHost (RemoteAddr req))" "ValidString (logUsername (URL req))"
    "ValidString (Method req)" "ValidString (Proto req)"
  shows "ValidString (last (writeCombinedLog tb w req ts st sz d))"
  unfolding writeCombinedLog_shape using buildCommonLogLine_valid [OF assms, of tb ts st sz d]
  by (simp add: ValidString_append ValidString_ascii ValidString_ascii_append ValidString_asciiI appendQuoted_valid is_ascii_def
      del: ValidString.simps(2))

lemma writeCommonLog_valid:
  assumes "ValidString (logHost (RemoteAddr req))" "ValidString (logUsername (URL req))"
    "ValidString (Method req)" "ValidString (Proto req)"
  shows "ValidString (last (writeCommonLog tb w req ts st sz d))"
  using buildCommonLogLine_valid [OF assms, of tb ts st sz d]
  by (simp add: writeCommonLog_def ValidString_append ValidString_ascii ValidString_ascii_append is_ascii_def
      del: ValidString.simps(2))

subsection \<open>One line per write\<close>

lemma appendQuoted_no_nl: "0x0A \<notin> set (appendQuoted tb [] s)"
  using appendQuoted_safe [of tb s] by (auto simp: list_all_iff safe_byte_def)

lemma fields_no_nl: "0x0A \<notin> set (FormatCLF t) \<and> 0x0A \<notin> set (Itoa i) \<and> 0x0A \<notin> set (prettyDuration d)"
proof -
  have "0x0A \<notin> set clf_chars" "0x0A \<notin> set decimal_chars"
    by (simp_all add: clf_chars_def decimal_chars_def shortMonthNames_def)
  then show ?thesis using FormatCLF_chars [of t] Itoa_chars [of i] prettyDuration_no_space_nl [of d] by blast
qed

lemma buildCommonLogLine_no_nl:
  assumes "0x0A \<notin> set (logHost (RemoteAddr req))" "0x0A \<notin> set (logUsername (URL req))"
    "0x0A \<notin> set (Method req)" "0x0A \<notin> set (Proto req)"
  shows "0x0A \<notin> set (buildCommonLogLine tb req ts st sz d)"
  unfolding buildCommonLogLine_shape using assms fields_no_nl [of ts st d] fields_no_nl [of ts sz d]
  by (simp add: appendQuoted_no_nl)

lemma writeCombinedLog_one_line:
  assumes "0x0A \<notin> set (logHost (RemoteAddr req))" "0x0A \<notin> set (logUsername (URL req))"
    "0x0A \<notin> set (Method req)" "0x0A \<notin> set (Proto req)"
  shows "0x0A \<notin> set (butlast (last (writeCombinedLog tb w req ts st sz d))) \<and>
         last (last (writeCombinedLog tb w req ts st sz d)) = 0x0A"
  unfolding writeCombinedLog_shape using buildCommonLogLine_no_nl [OF assms, of tb ts st sz d]
  by (simp add: appendQuoted_no_nl butlast_append)

lemma writeCommonLog_one_line:
  assumes "0x0A \<notin> set (logHost (RemoteAddr req))" "0x0A \<notin> set (logUsername (URL req))"
    "0x0A \<notin> set (Method req)" "0x0A \<notin> set (Proto req)"
  shows "0x0A \<notin> set (butlast (last (writeCommonLog tb w req ts st sz d))) \<and>
         last (last (writeCommonLog tb w req ts st sz d)) = 0x0A"
  using buildCommonLogLine_no_nl [OF assms, of tb ts st sz d] by (simp add: writeCommonLog_def)

lemma nl_free_single_line:
  assumes "nl_free_fields req"
  shows "single_line (last (writeCommonLog tb w req ts st sz d)) \<and>
         single_line (last (writeCombinedLog tb w req ts st sz d))"
proof -
  have "last (writeCommonLog tb w req ts st sz d) \<noteq> []" "last (writeCombinedLog tb w req ts st sz d) \<noteq> []"
    by (simp_all add: writeCommonLog_def writeCombinedLog_def Let_def)
  then show ?thesis using assms writeCommonLog_one_line writeCombinedLog_one_line
    by (simp add: single_line_def nl_free_fields_def)
qed

end
