(* ===== verification/Spec2Isabelle.thy ===== *)
theory Spec2Isabelle
  imports Server Readme LogParse QuoteLoop ValidUtf8
begin

text \<open>
  \<^bold>\<open>A verification library for vma/logger.\<close>

  The repository is one Go file, src/logger.go, and a README
  (src/unnamed/part_000). The Go file holds two chi middlewares,
  \<open>CommonLogger\<close> and \<open>CombinedLogger\<close> (lines 28-56). Each one:
  \<^item> records \<open>time.Now()\<close>;
  \<^item> wraps the response writer in chi's \<open>WrapResponseWriter\<close> and delegates to
    the next handler;
  \<^item> reads the status and byte count back, and the elapsed time;
  \<^item> writes one Apache log line (Common or Combined format, plus the latency
    in milliseconds) to an \<open>io.Writer\<close>, in one \<open>Write\<close>.
  The line is built by \<open>buildCommonLogLine\<close> and extended by
  \<open>writeCombinedLog\<close>. The request target, referrer and user agent pass through
  the escaper \<open>appendQuoted\<close>; the latency through \<open>prettyDuration\<close>.

  \<^bold>\<open>Theories.\<close>
  \<^item> \<open>Prelude\<close>: Go strings as \<open>8 word list\<close> (\<open>gostring\<close>), runes as \<open>int\<close>,
    ASCII literals (\<open>golit\<close>), and the lemmas that read \<open>AND\<close>/\<open>OR\<close>/shifts
    and signed 64-bit wrap-around as arithmetic.
  \<^item> \<open>Utf8\<close>: Go's \<open>utf8.DecodeRuneInString\<close> (table-driven, as in the Go
    library) and \<open>utf8.EncodeRune\<close>; a reference decoder \<open>decode_ref\<close> by cases
    on the lead byte; the equivalence of the two; the round trip and the
    canonicity of decoding.
  \<^item> \<open>Strconv\<close>: \<open>strconv.IsPrint\<close> with its binary search over the Unicode
    range tables, and \<open>strconv.Itoa\<close>. The tables are a parameter
    (\<open>print_tables\<close>) of every theorem. Lemmas: the search computes the
    number of entries below the key on a sorted table, and a decimal reader
    inverts \<open>Itoa\<close>.
  \<^item> \<open>Quote\<close>: \<open>appendQuoted\<close> (logger.go 58-122), as the loop
    \<open>appendQuoted\<close> over the step \<open>quoteStep\<close> (one rune), with
    \<open>escapeNonPrint\<close> for the final \<open>switch\<close>. Lemmas: the loop terminates;
    escaping leaves plain text unchanged; a non-printable rune takes the final
    \<open>switch\<close>; a step writes at most six bytes per byte it consumes.
  \<^item> \<open>QuoteSafety\<close>: a reader of the escape syntax (\<open>unquote\<close>). Lemmas: the
    escaper's output has no control byte, and the reader recovers the input
    exactly from the output and its closing quote; an invalid byte is
    escaped alone.
  \<^item> \<open>QuoteLoop\<close>: the \<open>for\<close> loop of \<open>appendQuoted\<close> as written (a
    \<open>while_option\<close> over buffer and rest of the input) and the shift loops of
    the \<open>\u\<close>/\<open>\U\<close> escapes (\<open>hexLoop\<close>). Lemmas: the loop exits on
    every input with the recursive escaper's result (halting by a measure,
    the result by an invariant); the shift loops emit \<open>hexDigits\<close>.
  \<^item> \<open>ValidUtf8\<close>: \<open>utf8.ValidString\<close>, from its documentation, as repeated
    decoding. Lemmas: validity is kept by concatenation; the escaper's
    output is valid for every input; a log line is valid when the four
    fields copied unescaped are, and carries exactly one newline, its last
    byte, when those fields hold none.
  \<^item> \<open>TimeFmt\<close>: \<open>Time.Format\<close> on the layout \<open>02/Jan/2006:15:04:05 -0700\<close>
    (a time is Unix seconds and a zone offset). Lemmas: the date conversion
    gives a month in 1..12 and a day in 1..31 for every day number (a table
    of the 400 years of an era, evaluated, and monotonicity of the year
    formula), and the timestamp's alphabet (\<open>FormatCLF_chars\<close>).
  \<^item> \<open>Duration\<close>: \<open>prettyDuration\<close> (logger.go 124-128). The float64
    conversion and division are rounded exactly (\<open>rn53\<close>), and \<open>%.3f\<close> rounds
    half to even. Lemmas: the alphabet of the latency field; the error
    bounds of the rounding (\<open>floor_log2\<close> brackets, relative error
    \<open>2^-53\<close>, exact on integers below \<open>2^53\<close>), hence a whole number of
    microseconds prints exactly.
  \<^item> \<open>UrlEscape\<close>: net/url's percent-encoding: \<open>shouldEscape\<close> for every
    mode, \<open>escape\<close> with its fast path, \<open>unescape\<close> in path mode (errors as
    \<open>url_error\<close> values) and \<open>validEncodedPath\<close>. Lemmas: the fast path
    agrees with the slow one; unescaping inverts escaping; an escaped path
    is printable ASCII without \<open>?\<close>.
  \<^item> \<open>Netx\<close>: \<open>net.SplitHostPort\<close> (errors as an \<open>addr_error\<close> sum),
    \<open>url.URL.EscapedPath\<close> and \<open>RequestURI\<close>, \<open>Header.Get\<close> with the
    canonicalization of its key (idempotent; the logger's keys are fixed points;
    keys equal up to ASCII case find the same values), and the
    request record; lemmas on byte search, on the success and error paths of
    \<open>SplitHostPort\<close> (bracketed IPv6 hosts included), and on the
    reconstructed target: its path part decodes to the URL's path.
  \<^item> \<open>LogLine\<close>: \<open>buildCommonLogLine\<close> with its field selections
    (\<open>logUsername\<close>, \<open>logHost\<close>, \<open>logURI\<close>), \<open>writeCommonLog\<close> and
    \<open>writeCombinedLog\<close>. A writer is the list of the byte strings written to it.
    Lemmas: the field each branch of \<open>logURI\<close> and \<open>logHost\<close> selects;
    the shape of both lines.
  \<^item> \<open>Middleware\<close>: \<open>CommonLogger\<close> and \<open>CombinedLogger\<close>, with:
    \<^item> chi's \<open>basicWriter\<close> (\<open>WriteHeader\<close>, \<open>Write\<close>, \<open>Status\<close>,
      \<open>BytesWritten\<close>) over any \<open>http.ResponseWriter\<close>, given as a record of
      its methods (\<open>respwriter_iface\<close>), and the \<open>ReadFrom\<close> of its
      \<open>fancyWriter\<close> (pressly/chi's middleware/wrap_writer.go of 2017, the
      one-argument \<open>NewWrapResponseWriter\<close> logger.go calls);
    \<^item> \<open>io.Copy\<close> into the wrapped writer: the writer's \<open>ReadFrom\<close> when it
      is fancy, otherwise the loop of 32 KiB writes (\<open>copyLoop\<close>, a
      \<open>function\<close> terminating on the length of the rest);
    \<^item> \<open>time.Now\<close> and \<open>Time.Sub\<close> (int64 wrap-around and saturation);
    \<^item> the handler, as a script of its calls on the writer and of the time it
      takes.
    Lemmas: the writer's invariant; the status, size and latency the line
    carries (\<open>CommonLogger_out\<close>, \<open>CombinedLogger_out\<close>); the bytes the
    client receives (\<open>runHandler_body\<close>); \<open>Sub\<close> clamps.
  \<^item> \<open>Server\<close>: many requests served concurrently by one middleware on a shared
    sink, as an \<open>inductive\<close> step relation with reachability. Lemmas:
    \<^item> the invariant by rule induction: the sink gets exactly one whole line per
      finished request, and latencies are in range;
    \<^item> chi's writer invariant on every running request;
    \<^item> any property of every line the logger can write for a request is a
      property of the line each finished request logged, so every write on
      the sink is one line when no request has a newline in its unescaped
      fields;
    \<^item> progress of every request.
  \<^item> \<open>LogParse\<close>: a reader of the log format, written from the
    specification. Lemma: every Common and Combined entry written is read
    back to exactly its fields.
  \<^item> \<open>Readme\<close>: the README's example program, the line the README shows
    for it, and the witnesses' data.
  \<^item> This theory: the claims, which span the components.

  \<^bold>\<open>Not modelled.\<close>
  \<^item> The Unicode tables of \<open>strconv\<close>: data, left as a parameter.
  \<^item> \<open>unescape\<close> in the modes other than the path mode: the logger's calls
    never reach them.
  \<^item> net/http's parsing of requests: the request record is its result.
  \<^item> chi's router and the optional \<open>Flush\<close>, \<open>Hijack\<close> and \<open>Push\<close> of
    its writers: the middleware never calls them, and they change neither the
    status nor the count the logger reads (a hijacked connection is outside
    the response). \<open>io.Copy\<close> from a reader with \<open>WriteTo\<close> is a sequence
    of \<open>Write\<close> calls, which the script already has.
  \<^item> The time zone database: the local offset is a function of the second.
  \<^item> The README's installation text: it is not code.

  \<^bold>\<open>Bounds and fuel.\<close>
  \<^item> No loop of the model needs fuel: the escaping loop, the reader, the
    validity check and the binary search terminate by measures (input
    length, interval width), the shift loops by the distance of the shift to
    \<open>-4\<close>. The escaping loop written as a \<open>while_option\<close> is proved to
    return \<open>Some\<close> on every input (C32).
  \<^item> Go's \<open>int\<close>, \<open>int64\<close> and \<open>rune\<close> are \<open>int\<close>, except where wrap-around
    matters: \<open>Time.Sub\<close> subtracts as a 64-bit word and detects overflow as Go
    does.
  \<^item> chi's byte count, a Go \<open>int\<close>, is an unbounded \<open>int\<close>: it would
    wrap only after \<open>2^63\<close> bytes of one response.
  \<^item> The clock of the server model stays within int64 nanoseconds (292
    years); a step that would leave it is not a step of the model.
  \<^item> The float64 arithmetic of \<open>prettyDuration\<close> is rounded exactly instead.

  \<^bold>\<open>Findings.\<close> The claims that record a difference between the code and
  its specification or documentation:
  \<^item> a silent handler is logged with status 0 (C10);
  \<^item> the user name is not escaped, so a line can be split (C11);
  \<^item> the README's example line does not match its program, for any latency (C36);
  \<^item> an empty HTTP/2 authority does not override the target (C22);
  \<^item> DEL and the C1 controls are escaped as \<open>\u00XX\<close>, DEL taking six
    bytes where strconv takes four (C27, C37);
  \<^item> the latency's third decimal rounds half to even (C28);
  \<^item> a body sent by \<open>io.Copy\<close> through chi's fancy writer is not counted in
    the logged size (C17).
\<close>

subsection \<open>A run of the server\<close>

text \<open>
  A server with the README's clock and no request; the same after one request
  with a silent handler is accepted; and after it is logged.
\<close>

text \<open>A URL whose path needs escaping, with a query.\<close>

definition example_query_url :: url where
  "example_query_url =
     \<lparr>Scheme = [], Opaque = [], User = None, Path = golit ''/a b?c'', RawPath = [], RawQuery = golit ''x=1'',
      ForceQuery = False\<rparr>"

text \<open>The handler of the specification's scenario: 13 bytes written, 12 ms taken.\<close>

definition scenario_handler :: handler where
  "scenario_handler r = [HWrite (golit ''Hello, World!''), HElapse 12000000]"

text \<open>A writer that accepts at most one byte per call, as \<open>io.Writer\<close> allows.\<close>

definition short_rw :: "recorder respwriter_iface" where
  "short_rw = recorder_rw\<lparr>rw_Write := (\<lambda>w buf. (w\<lparr>rec_code := (if rec_code w = None then Some 200 else rec_code w),
                                         rec_body := rec_body w @ take 1 buf\<rparr>, int (min 1 (length buf))))\<rparr>"

definition srv0 :: "recorder server" where
  "srv0 = \<lparr>env = readme_world, reqs = []\<rparr>"

definition srv1 :: "recorder server" where
  "srv1 = srv0\<lparr>reqs := [(example_request, Running (Now readme_world) (NewWrapResponseWriter empty_recorder) [])]\<rparr>"

definition srv1_line :: writer where
  "srv1_line =
     writeLog CommonFmt latin1_tables [] example_request (clfTime readme_world (Now readme_world))
       (Status (NewWrapResponseWriter empty_recorder)) (BytesWritten (NewWrapResponseWriter empty_recorder))
       (Sub (Now readme_world) (Now readme_world))"

definition srv2 :: "recorder server" where
  "srv2 = srv1\<lparr>env := readme_world\<lparr>out := srv1_line\<rparr>,
                reqs := [(example_request, Done (last srv1_line) (Sub (Now readme_world) (Now readme_world)))]\<rparr>"

subsection \<open>The end-to-end line\<close>

text \<open>
  C1: one request through \<open>CombinedLogger\<close> (logger.go 30-41) appends
  exactly one write to the sink: the Combined line of the request, stamped
  with the time the middleware was entered, carrying the status chi reports
  for the handler's calls, the bytes chi counted, the monotonic time the
  handler took, and the request's referrer and user agent. The witness is the
  scenario of the specification: a \<open>GET /\<close> from \<open>[::1]:54321\<close> answered
  with 13 bytes after 12 ms at 2017-01-02 20:07:27 +0100 is logged as
  \<open>::1 - - [02/Jan/2017:20:07:27 +0100] "GET / HTTP/1.1" 200 13 12.000ms "" "curl/7.51.0"\<close>.
\<close>

theorem combined_logger_line:
  assumes "rw_accepts rw" "0 \<le> mono wd" "mono wd + int (elapsedOf (hnd r)) \<le> maxDuration"
  shows "out (fst (CombinedLogger tb rw hnd r w wd)) =
           writeCombinedLog tb (out wd) r (clfTime wd (Now wd)) (statusOf (rw_fancy rw) (hnd r))
             (int (bodyLen (rw_fancy rw) (hnd r))) (int (elapsedOf (hnd r)))"
  using assms by (rule CombinedLogger_out)

lemma scenario_line:
  "writeCombinedLog tb [] example_request \<lparr>unix_sec = 1483384047, zone_offset = 3600\<rparr> 200 13 12000000 =
     [golit ''::1 - - [02/Jan/2017:20:07:27 +0100] \"GET / HTTP/1.1\" 200 13 12.000ms \"\" \"curl/7.51.0\"''
      @ [0x0A]]"
  unfolding example_request_def by code_simp

theorem combined_logger_line_witness:
  "rw_accepts recorder_rw \<and> 0 \<le> mono (readme_world :: recorder world) \<and>
   mono (readme_world :: recorder world) + int (elapsedOf (scenario_handler example_request)) \<le> maxDuration \<and>
   out (fst (CombinedLogger latin1_tables recorder_rw scenario_handler example_request empty_recorder readme_world)) =
     [golit ''::1 - - [02/Jan/2017:20:07:27 +0100] \"GET / HTTP/1.1\" 200 13 12.000ms \"\" \"curl/7.51.0\"''
      @ [0x0A]]"
proof -
  have h: "0 \<le> mono (readme_world :: recorder world)"
    "mono (readme_world :: recorder world) + int (elapsedOf (scenario_handler example_request)) \<le> maxDuration"
    by (simp_all add: readme_world_def scenario_handler_def maxDuration_def)
  have "out (fst (CombinedLogger latin1_tables recorder_rw scenario_handler example_request empty_recorder readme_world)) =
      writeCombinedLog latin1_tables [] example_request \<lparr>unix_sec = 1483384047, zone_offset = 3600\<rparr> 200 13 12000000"
    using combined_logger_line [where hnd = scenario_handler and r = example_request and wd = readme_world, OF recorder_accepts h]
    by (simp add: scenario_handler_def readme_world_def clfTime_def Now_def recorder_rw_def)
  then show ?thesis using recorder_accepts h by (simp add: scenario_line)
qed

subsection \<open>Escaping\<close>

text \<open>
  C8: escaping leaves a string unchanged when it is the UTF-8 encoding of
  valid, printable runes none of which is a double quote or a backslash
  (specification, section 8, second property).
\<close>

theorem quote_plain_unchanged:
  assumes "\<forall>r \<in> set rs. plain_rune tb r"
  shows "appendQuoted tb buf (concat (map EncodeRune rs)) = buf @ concat (map EncodeRune rs)"
  using assms by (rule appendQuoted_plain)

theorem quote_plain_unchanged_witness:
  "plain_rune latin1_tables 0x61 \<and> plain_rune latin1_tables 0xE9 \<and>
   appendQuoted latin1_tables [] (concat (map EncodeRune [0x61, 0xE9])) = [0x61, 0xC3, 0xA9]"
proof -
  have h: "\<forall>r \<in> set [0x61, 0xE9]. plain_rune latin1_tables r"
    by (simp add: plain_rune_def ValidRune_def MaxRune_def IsPrint_def)
  have "concat (map EncodeRune [0x61, 0xE9]) = [0x61, 0xC3, 0xA9]"
    by (simp add: EncodeRune_def MaxRune_def)
  then show ?thesis using h quote_plain_unchanged [OF h, of "[]"] by simp
qed

subsection \<open>UTF-8\<close>

text \<open>
  C18: \<open>utf8.DecodeRuneInString\<close> reads back what \<open>utf8.EncodeRune\<close> writes: a
  valid rune, encoded and followed by anything, decodes to itself with the
  encoding's width.
\<close>

theorem decode_encode_roundtrip:
  assumes "ValidRune r"
  shows "DecodeRuneInString (EncodeRune r @ s) = (r, length (EncodeRune r))"
  using assms by (rule utf8_roundtrip)

theorem decode_encode_roundtrip_witness:
  "ValidRune 0x1F600 \<and> DecodeRuneInString (EncodeRune 0x1F600 @ [0x41]) = (0x1F600, 4)"
proof -
  have h: "ValidRune 0x1F600" by (simp add: ValidRune_def MaxRune_def)
  have "length (EncodeRune 0x1F600) = 4" by (simp add: EncodeRune_def MaxRune_def)
  then show ?thesis using h decode_encode_roundtrip [OF h, of "[0x41]"] by simp
qed

text \<open>
  C19: every multi-byte decode is canonical: the rune read is a valid scalar
  value of at least U+0080, and re-encoding it gives back exactly the bytes
  consumed (no overlong form, no surrogate, nothing above U+10FFFF is
  accepted).
\<close>

theorem decode_canonical:
  assumes "DecodeRuneInString s = (r, n)" "2 \<le> n"
  shows "ValidRune r \<and> 0x80 \<le> r \<and> take n s = EncodeRune r"
  using assms by (rule utf8_canonical)

theorem decode_canonical_witness:
  "DecodeRuneInString [0xC3, 0xA9, 0x41] = (0xE9, 2) \<and> 2 \<le> (2::nat) \<and>
   ValidRune 0xE9 \<and> 0x80 \<le> (0xE9::int) \<and> take 2 [0xC3, 0xA9, 0x41] = EncodeRune 0xE9"
proof -
  have h: "DecodeRuneInString [0xC3, 0xA9, 0x41] = (0xE9, 2)"
    by (simp add: DecodeRuneInString_def first_def acceptRanges_def)
  show ?thesis using h decode_canonical [OF h] by simp
qed

text \<open>
  C20: the table-driven decoder of the Go library computes the reference
  decoder \<open>decode_ref\<close>, stated by cases on the lead byte.
\<close>

theorem decoder_matches_reference: "DecodeRuneInString s = decode_ref s"
  by (rule DecodeRuneInString_ref)

subsection \<open>The middleware\<close>

text \<open>
  C3: one request through \<open>CommonLogger\<close> (logger.go 45-56) appends
  exactly one write to the sink: the Common Log line of the request, stamped
  with the time the middleware was entered, carrying the status chi reports
  for the handler's calls, the number of bytes the handler wrote, and the
  monotonic time the handler took, plus a newline. Hypotheses: the wrapped
  writer accepts every byte, and the monotonic clock is non-negative and does
  not overflow int64 during the request.
\<close>

theorem common_logger_line:
  assumes "rw_accepts rw" "0 \<le> mono wd" "mono wd + int (elapsedOf (hnd r)) \<le> maxDuration"
  shows "out (fst (CommonLogger tb rw hnd r w wd)) =
           writeCommonLog tb (out wd) r (clfTime wd (Now wd)) (statusOf (rw_fancy rw) (hnd r))
             (int (bodyLen (rw_fancy rw) (hnd r))) (int (elapsedOf (hnd r)))"
  using assms by (rule CommonLogger_out)

theorem common_logger_line_witness:
  "rw_accepts recorder_rw \<and> 0 \<le> mono (readme_world :: recorder world) \<and>
   mono (readme_world :: recorder world) + int (elapsedOf (helloHandler 5 example_request)) \<le> maxDuration \<and>
   out (fst (CommonLogger latin1_tables recorder_rw (helloHandler 5) example_request empty_recorder readme_world)) =
     writeCommonLog latin1_tables [] example_request (clfTime (readme_world :: recorder world) (Now readme_world))
       200 14 5"
proof -
  have h: "0 \<le> mono (readme_world :: recorder world)"
    "mono (readme_world :: recorder world) + int (elapsedOf (helloHandler 5 example_request)) \<le> maxDuration"
    by (simp_all add: readme_world_def helloHandler_def maxDuration_def)
  show ?thesis
    using recorder_accepts h common_logger_line [where rw = recorder_rw and wd = readme_world and
        hnd = "helloHandler 5" and r = example_request and tb = latin1_tables and w = empty_recorder, OF recorder_accepts h]
    by (simp add: helloHandler_observed readme_world_def)
qed

text \<open>
  C10: a handler that neither sets a status, nor writes, nor copies a body is
  logged, by either middleware, with status 0 and size 0 and the time it
  took, and nothing has been sent to the client through the wrapped writer.
  net/http then answers 200 when the handler returns, so the line does not
  show the status the client got (the specification asks for the success
  default).
\<close>

theorem silent_handler_logged_zero:
  assumes "\<forall>op \<in> set (hnd r). op \<notin> range HWriteHeader \<and> op \<notin> range HWrite \<and> op \<notin> range HCopy"
    "0 \<le> mono wd" "mono wd + int (elapsedOf (hnd r)) \<le> maxDuration"
  shows "out (fst (CommonLogger tb rw hnd r w wd)) =
           writeCommonLog tb (out wd) r (clfTime wd (Now wd)) 0 0 (int (elapsedOf (hnd r))) \<and>
         snd (CommonLogger tb rw hnd r w wd) = w \<and>
         out (fst (CombinedLogger tb rw hnd r w wd)) =
           writeCombinedLog tb (out wd) r (clfTime wd (Now wd)) 0 0 (int (elapsedOf (hnd r))) \<and>
         snd (CombinedLogger tb rw hnd r w wd) = w"
  using assms by (rule Loggers_silent)

theorem silent_handler_logged_zero_witness:
  "0 \<le> mono (readme_world :: recorder world) \<and> mono (readme_world :: recorder world) + int 1000 \<le> maxDuration \<and>
   out (fst (CommonLogger latin1_tables recorder_rw (\<lambda>_. [HElapse 1000]) example_request empty_recorder readme_world)) =
     [golit ''::1 - - [02/Jan/2017:20:07:27 +0100] \"GET / HTTP/1.1\" 0 0 0.001ms'' @ [0x0A]] \<and>
   snd (CommonLogger latin1_tables recorder_rw (\<lambda>_. [HElapse 1000]) example_request empty_recorder readme_world) =
     empty_recorder"
proof -
  have h: "\<forall>op \<in> set ((\<lambda>_. [HElapse 1000]) example_request). op \<notin> range HWriteHeader \<and> op \<notin> range HWrite \<and> op \<notin> range HCopy"
    "0 \<le> mono (readme_world :: recorder world)"
    "mono (readme_world :: recorder world) + int (elapsedOf ((\<lambda>_. [HElapse 1000]) example_request)) \<le> maxDuration"
    by (auto simp: readme_world_def maxDuration_def)
  have l: "writeCommonLog latin1_tables [] example_request \<lparr>unix_sec = 1483384047, zone_offset = 3600\<rparr> 0 0 1000 =
      [golit ''::1 - - [02/Jan/2017:20:07:27 +0100] \"GET / HTTP/1.1\" 0 0 0.001ms'' @ [0x0A]]"
    unfolding example_request_def by code_simp
  show ?thesis
    using silent_handler_logged_zero [where tb = latin1_tables and rw = recorder_rw and w = empty_recorder, OF h] h l
    by (simp add: readme_world_def clfTime_def Now_def)
qed

text \<open>
  C14: the invariant of chi's writer holds after any handler, if the wrapped
  writer keeps the \<open>io.Writer\<close> contract: until a header is written the
  reported status is 0 and no byte is counted, and the count is never
  negative. So a logged line with a positive size always carries the status
  that was sent.
\<close>

theorem wrap_writer_invariant:
  assumes "rw_counts rw"
  shows "bw_inv (snd (runHandler rw wd (NewWrapResponseWriter w) ops))"
  using assms bw_inv_New by (rule runHandler_inv)

theorem wrap_writer_invariant_witness:
  "rw_counts recorder_rw \<and>
   bw_inv (snd (runHandler recorder_rw (readme_world :: recorder world) (NewWrapResponseWriter empty_recorder)
                  (helloHandler 0 example_request)))"
  using recorder_counts wrap_writer_invariant [OF recorder_counts] by simp

text \<open>
  C15: \<open>t2.Sub(t1)\<close> on int64 monotonic readings is the exact difference,
  saturated at the bounds of \<open>time.Duration\<close>: the wrap-around of the
  64-bit subtraction never leaks into the logged latency.
\<close>

theorem sub_saturates:
  assumes "int64 (mono_ns t)" "int64 (mono_ns u)"
  shows "Sub t u = max minDuration (min maxDuration (mono_ns t - mono_ns u))"
  using assms by (rule Sub_saturating)

theorem sub_saturates_witness:
  "int64 (2 ^ 63 - 1) \<and> int64 (- 5) \<and>
   Sub \<lparr>wall_ns = 0, mono_ns = 2 ^ 63 - 1\<rparr> \<lparr>wall_ns = 0, mono_ns = - 5\<rparr> = maxDuration"
proof -
  have h: "int64 (mono_ns \<lparr>wall_ns = 0, mono_ns = 2 ^ 63 - 1\<rparr>)" "int64 (mono_ns \<lparr>wall_ns = 0, mono_ns = - 5\<rparr>)"
    by (simp_all add: int64_def minDuration_def maxDuration_def)
  show ?thesis using h sub_saturates [OF h] by (simp add: maxDuration_def minDuration_def)
qed

subsection \<open>Concurrent requests\<close>

text \<open>
  C5: in every interleaving of any number of requests through one
  middleware instance, the shared sink holds what it held before followed by
  the lines of the finished requests, one write each, in some order; every
  one of them ends in a newline. Writes are never lost, duplicated or split.
\<close>

theorem concurrent_sink_lines:
  assumes "reach fmt tb rw hnd s0 s" "reqs s0 = []" "0 \<le> mono (env s0)" "mono (env s0) \<le> maxDuration"
  shows "take (length (out (env s0))) (out (env s)) = out (env s0) \<and>
         mset (drop (length (out (env s0))) (out (env s))) = mset (done_lines (reqs s)) \<and>
         (\<forall>l \<in> set (done_lines (reqs s)). l \<noteq> [] \<and> last l = 0x0A)"
proof -
  have "srv_inv s0 s" using assms by (rule reach_srv_inv)
  then show ?thesis unfolding srv_inv_def using done_lines_ok by blast
qed

text \<open>The run \<open>srv0\<close>, \<open>srv1\<close>, \<open>srv2\<close> of the server.\<close>

lemma srv_run_accept:
  "reach CommonFmt latin1_tables recorder_rw (\<lambda>_. []) srv0 srv1"
proof -
  have "srv_step CommonFmt latin1_tables recorder_rw (\<lambda>_. []) srv0 srv1"
    using srv_step.accept [of CommonFmt latin1_tables recorder_rw "\<lambda>_. []" srv0 example_request empty_recorder]
    by (simp add: srv0_def srv1_def)
  then show ?thesis by (blast intro: reach.intros)
qed

lemma srv_run_example:
  "reach CommonFmt latin1_tables recorder_rw (\<lambda>_. []) srv0 srv2"
proof -
  have "srv_step CommonFmt latin1_tables recorder_rw (\<lambda>_. []) srv1 srv2"
    using srv_step.finish [of 0 srv1 example_request "Now readme_world" "NewWrapResponseWriter empty_recorder"
        "Sub (Now readme_world) (Now readme_world)" srv1_line CommonFmt latin1_tables recorder_rw "\<lambda>_. []"]
    by (simp add: srv0_def srv1_def srv2_def srv1_line_def readme_world_out)
  with srv_run_accept show ?thesis by (rule reach.step)
qed

theorem concurrent_sink_lines_witness:
  "reach CommonFmt latin1_tables recorder_rw (\<lambda>_. []) srv0 srv2 \<and> reqs srv0 = [] \<and> 0 \<le> mono (env srv0) \<and>
   mono (env srv0) \<le> maxDuration \<and>
   take 0 (out (env srv2)) = [] \<and> mset (out (env srv2)) = mset (done_lines (reqs srv2))"
proof -
  have h: "reqs srv0 = []" "0 \<le> mono (env srv0)" "mono (env srv0) \<le> maxDuration"
    by (simp_all add: srv0_def readme_world_def maxDuration_def)
  have "out (env srv0) = []" by (simp add: srv0_def readme_world_def)
  then show ?thesis using srv_run_example h concurrent_sink_lines [OF srv_run_example h] by simp
qed

text \<open>
  C12: in every interleaving, every latency a finished request logged lies in
  \<open>[0, maxDuration]\<close> (specification 4.4: elapsed is never negative), even
  when the wall clock is stepped back while the request runs.
\<close>

theorem concurrent_latency_bounds:
  assumes "reach fmt tb rw hnd s0 s" "reqs s0 = []" "0 \<le> mono (env s0)" "mono (env s0) \<le> maxDuration"
    "(r, Done l d) \<in> set (reqs s)"
  shows "0 \<le> d \<and> d \<le> maxDuration"
proof -
  have "srv_inv s0 s" using assms(1-4) by (rule reach_srv_inv)
  then have "list_all (\<lambda>(r, st). req_ok (mono (env s)) st) (reqs s)" by (simp add: srv_inv_def)
  then show ?thesis using assms(5) by (rule done_ok)
qed

theorem concurrent_latency_bounds_witness:
  "reach CommonFmt latin1_tables recorder_rw (\<lambda>_. []) srv0 srv2 \<and> reqs srv0 = [] \<and> 0 \<le> mono (env srv0) \<and>
   mono (env srv0) \<le> maxDuration \<and>
   (example_request, Done (last srv1_line) (Sub (Now readme_world) (Now readme_world))) \<in> set (reqs srv2) \<and>
   0 \<le> Sub (Now readme_world) (Now readme_world)"
proof -
  have h: "reqs srv0 = []" "0 \<le> mono (env srv0)" "mono (env srv0) \<le> maxDuration"
    "(example_request, Done (last srv1_line) (Sub (Now readme_world) (Now readme_world))) \<in> set (reqs srv2)"
    by (simp_all add: srv0_def srv2_def readme_world_def maxDuration_def)
  show ?thesis using srv_run_example h concurrent_latency_bounds [OF srv_run_example h] by simp
qed

text \<open>
  C13: progress. A running request whose remaining handler time fits the
  clock can always run to completion, whatever the other requests do
  meanwhile: there is a run in which it is logged, with exactly one more
  write on the sink.
\<close>

theorem request_can_finish:
  assumes "i < length (reqs s)" "reqs s ! i = (r, Running t1 b ops)"
    "mono (env s) + int (elapsedOf ops) \<le> maxDuration"
  shows "\<exists>s'. reach fmt tb rw hnd s s' \<and> (\<exists>l d. reqs s' ! i = (r, Done l d)) \<and>
           length (out (env s')) = Suc (length (out (env s)))"
  using assms by (rule srv_can_finish)

theorem request_can_finish_witness:
  "0 < length (reqs srv1) \<and>
   reqs srv1 ! 0 = (example_request, Running (Now readme_world) (NewWrapResponseWriter empty_recorder) []) \<and>
   mono (env srv1) + int (elapsedOf []) \<le> maxDuration \<and>
   (\<exists>s'. reach CommonFmt latin1_tables recorder_rw (\<lambda>_. []) srv1 s' \<and>
      (\<exists>l d. reqs s' ! 0 = (example_request, Done l d)) \<and> length (out (env s')) = Suc (length (out (env srv1))))"
proof -
  have h: "0 < length (reqs srv1)"
    "reqs srv1 ! 0 = (example_request, Running (Now readme_world) (NewWrapResponseWriter empty_recorder) [])"
    "mono (env srv1) + int (elapsedOf []) \<le> maxDuration"
    by (simp_all add: srv0_def srv1_def readme_world_def maxDuration_def)
  show ?thesis using h request_can_finish [OF h, of CommonFmt latin1_tables recorder_rw "\<lambda>_. []"] by blast
qed

subsection \<open>The README example\<close>



subsection \<open>Escaping: what a reader of the log gets\<close>

text \<open>
  C6: whatever the Unicode tables, the output of \<open>appendQuoted\<close> contains no
  ASCII control byte and no DEL: a quoted field can never carry a newline or
  a carriage return into the log.
\<close>

theorem escaped_no_control: "list_all safe_byte (appendQuoted tb [] s)"
  by (rule appendQuoted_safe)

text \<open>
  C4: escaping is lossless and delimits: reading the output of
  \<open>appendQuoted\<close> followed by a closing quote with the escape syntax gives
  back exactly the input and stops at that quote (so every quote and
  backslash of the input was escaped), for every input, invalid UTF-8
  included (specification, section 8, third property).
\<close>

theorem quote_unquote_roundtrip: "unquote (appendQuoted tb [] s @ dquote # rest) = Some (s, rest)"
  by (rule appendQuoted_unquote)

text \<open>
  C27: DEL (U+007F), the C1 controls U+0080..U+009F, U+00A0 and the soft
  hyphen U+00AD, wherever they occur, are escaped as \<open>\u\<close> and four hex
  digits (\<open>\u007f\<close> for DEL), whatever the Unicode tables: the copy of the
  escaper in logger.go lacks strconv's \<open>r == 0x7f\<close> case of the \<open>\x\<close>
  branch, and the specification does not say which form these runes take.
\<close>

theorem del_escaped_as_u:
  assumes "0x7F \<le> r \<and> r \<le> 0xA0 \<or> r = 0xAD"
  shows "appendQuoted tb buf (EncodeRune r @ rest) = appendQuoted tb (buf @ bslash # golit ''u'' @ hexDigits 4 r) rest"
proof -
  have v: "ValidRune r" using assms by (auto simp: ValidRune_def MaxRune_def)
  have p: "\<not> IsPrint tb r" using assms by (auto simp: IsPrint_def)
  have "escapeNonPrint r (hd (EncodeRune r)) = bslash # golit ''u'' @ hexDigits 4 r"
    using assms by (auto simp: escapeNonPrint_def MaxRune_def)
  moreover have "EncodeRune r \<noteq> []" by (simp add: EncodeRune_def Let_def)
  ultimately show ?thesis
    using appendQuoted_step [of "EncodeRune r @ rest" tb _ _ buf] quoteStep_nonprint [OF v p, of rest] by simp
qed

theorem del_escaped_as_u_witness:
  "(0x7F \<le> (0x7F::int) \<and> (0x7F::int) \<le> 0xA0 \<or> (0x7F::int) = 0xAD) \<and>
   appendQuoted latin1_tables [] [0x7F] = bslash # golit ''u007f''"
proof -
  have h: "0x7F \<le> (0x7F::int) \<and> (0x7F::int) \<le> 0xA0 \<or> (0x7F::int) = 0xAD" by simp
  have "appendQuoted latin1_tables [] (EncodeRune 0x7F @ []) =
      appendQuoted latin1_tables ([] @ bslash # golit ''u'' @ hexDigits 4 0x7F) []"
    by (rule del_escaped_as_u [OF h])
  moreover have "EncodeRune 0x7F = [0x7F]" by (simp add: encode_1)
  moreover have "hexDigits 4 0x7F = golit ''007f''" by code_simp
  ultimately show ?thesis using h by simp
qed

subsection \<open>Field selection\<close>

text \<open>
  C9: a \<open>CONNECT\<close> request over HTTP/2 with a non-empty authority is logged
  with the authority as its target, whatever its request URI and URL.
\<close>

theorem connect_target_is_host:
  assumes "ProtoMajor req = 2" "Method req = golit ''CONNECT''" "Host req \<noteq> []"
  shows "logURI req = Host req"
  using assms by (rule logURI_connect)

theorem connect_target_is_host_witness:
  "ProtoMajor (example_request\<lparr>Method := golit ''CONNECT'', ProtoMajor := 2, Host := golit ''example.com:443''\<rparr>) = 2 \<and>
   Method (example_request\<lparr>Method := golit ''CONNECT'', ProtoMajor := 2, Host := golit ''example.com:443''\<rparr>) = golit ''CONNECT'' \<and>
   Host (example_request\<lparr>Method := golit ''CONNECT'', ProtoMajor := 2, Host := golit ''example.com:443''\<rparr>) \<noteq> [] \<and>
   logURI (example_request\<lparr>Method := golit ''CONNECT'', ProtoMajor := 2, Host := golit ''example.com:443''\<rparr>) =
     golit ''example.com:443''"
proof -
  let ?r = "example_request\<lparr>Method := golit ''CONNECT'', ProtoMajor := 2, Host := golit ''example.com:443''\<rparr>"
  have h: "ProtoMajor ?r = 2" "Method ?r = golit ''CONNECT''" "Host ?r \<noteq> []" by simp_all
  show ?thesis using h connect_target_is_host [OF h] by simp
qed

text \<open>
  C22: a \<open>CONNECT\<close> over HTTP/2 with an empty authority falls back to the
  URL's request URI: the override of the specification (4.2, "overrides both
  prior choices") holds only when the authority is not empty.
\<close>

theorem connect_empty_host_fallback:
  assumes "ProtoMajor req = 2" "Method req = golit ''CONNECT''" "Host req = []"
  shows "logURI req = RequestURI (URL req)"
  using assms by (rule logURI_connect_no_host)

theorem connect_empty_host_fallback_witness:
  "ProtoMajor (example_request\<lparr>Method := golit ''CONNECT'', ProtoMajor := 2, Host := []\<rparr>) = 2 \<and>
   Method (example_request\<lparr>Method := golit ''CONNECT'', ProtoMajor := 2, Host := []\<rparr>) = golit ''CONNECT'' \<and>
   Host (example_request\<lparr>Method := golit ''CONNECT'', ProtoMajor := 2, Host := []\<rparr>) = [] \<and>
   logURI (example_request\<lparr>Method := golit ''CONNECT'', ProtoMajor := 2, Host := []\<rparr>) = golit ''/''"
proof -
  let ?r = "example_request\<lparr>Method := golit ''CONNECT'', ProtoMajor := 2, Host := []\<rparr>"
  have h: "ProtoMajor ?r = 2" "Method ?r = golit ''CONNECT''" "Host ?r = []" by simp_all
  have "RequestURI (URL ?r) = golit ''/''" unfolding example_request_def by code_simp
  then show ?thesis using h connect_empty_host_fallback [OF h] by simp
qed

text \<open>
  C23: the host field is the peer address with its port stripped: for a host
  and a port without colons or brackets, \<open>net.SplitHostPort\<close> succeeds and
  the host part is logged.
\<close>

theorem host_port_stripped:
  assumes "colon \<notin> set h" "colon \<notin> set p" "lbrack \<notin> set (h @ p)" "rbrack \<notin> set (h @ p)"
  shows "logHost (h @ colon # p) = h"
  using assms by (rule logHost_simple)

theorem host_port_stripped_witness:
  "colon \<notin> set (golit ''10.0.0.1'') \<and> colon \<notin> set (golit ''8080'') \<and>
   lbrack \<notin> set (golit ''10.0.0.1'' @ golit ''8080'') \<and> rbrack \<notin> set (golit ''10.0.0.1'' @ golit ''8080'') \<and>
   logHost (golit ''10.0.0.1'' @ colon # golit ''8080'') = golit ''10.0.0.1''"
proof -
  have h: "colon \<notin> set (golit ''10.0.0.1'')" "colon \<notin> set (golit ''8080'')"
    "lbrack \<notin> set (golit ''10.0.0.1'' @ golit ''8080'')" "rbrack \<notin> set (golit ''10.0.0.1'' @ golit ''8080'')"
    by simp_all
  show ?thesis using h host_port_stripped [OF h] by simp
qed

text \<open>
  C24: when the logger reconstructs the request target from the parsed URL
  (logger.go, lines 156-158), the path part of \<open>URL.RequestURI\<close> (up to
  the first \<open>?\<close>) percent-decodes to exactly the URL's path: the escaped
  path never contains the query delimiter, and unescaping in path mode
  inverts \<open>EscapedPath\<close> whether it kept the raw path or escaped the path.
\<close>

theorem request_target_path_roundtrip:
  assumes "Opaque u = []" "Path u \<noteq> []"
  shows "unescapePath (takeWhile (\<lambda>c. c \<noteq> 0x3F) (RequestURI u)) = Inr (Path u)"
  using RequestURI_path [OF assms] EscapedPath_unescape [of u] by simp

theorem request_target_path_roundtrip_witness:
  "Opaque example_query_url = [] \<and> Path example_query_url \<noteq> [] \<and>
   RequestURI example_query_url = golit ''/a%20b%3Fc?x=1'' \<and>
   unescapePath (takeWhile (\<lambda>c. c \<noteq> 0x3F) (RequestURI example_query_url)) = Inr (golit ''/a b?c'')"
proof -
  have h: "Opaque example_query_url = []" "Path example_query_url \<noteq> []"
    by (simp_all add: example_query_url_def)
  have "RequestURI example_query_url = golit ''/a%20b%3Fc?x=1''"
    unfolding example_query_url_def by code_simp
  then show ?thesis using h request_target_path_roundtrip [OF h] by (simp add: example_query_url_def)
qed

text \<open>
  C11: the user name is copied into the line unescaped: a URL whose user info
  carries a newline (\<open>%0A\<close> in the request target, decoded by net/url) puts
  a newline inside the line, which then reads as two log lines.
\<close>

theorem username_injection:
  "0x0A \<in> set (buildCommonLogLine tb
     (example_request\<lparr>URL := (URL example_request)\<lparr>User := Some (golit ''a'' @ [0x0A] @ golit ''b'')\<rparr>\<rparr>)
     ts st sz d)"
  unfolding buildCommonLogLine_def Let_def by (subst appendQuoted_append) (simp add: logUsername_def)

subsection \<open>Library functions\<close>

text \<open>
  C25: the binary search of \<open>strconv.IsPrint\<close> returns, on a sorted table,
  the number of entries below the key (the reference definition).
\<close>

theorem bsearch_matches_reference:
  assumes "sorted a"
  shows "bsearch a x = length (takeWhile (\<lambda>y. y < x) a)"
  using assms by (rule bsearch_takeWhile)

theorem bsearch_matches_reference_witness:
  "sorted [1, 5, 9 :: 16 word] \<and> bsearch [1, 5, 9 :: 16 word] 6 = 2"
proof -
  have h: "sorted [1, 5, 9 :: 16 word]" by simp
  have "length (takeWhile (\<lambda>y. y < 6) [1, 5, 9 :: 16 word]) = 2" by simp
  then show ?thesis using h bsearch_matches_reference [OF h, of 6] by simp
qed

text \<open>
  C26: \<open>strconv.Itoa\<close>, which prints the status and size fields, is read back
  by the decimal reader: the fields are exact.
\<close>

theorem itoa_roundtrip: "parse_dec (Itoa i) = Some i"
  by (rule parse_Itoa)

text \<open>
  C28: \<open>%.3f\<close> rounds ties to even on the exact binary value. A latency of
  \<open>62500 (2j + 1)\<close> ns is \<open>(2j + 1)/16\<close> ms, exactly representable, and
  lies exactly halfway between two multiples of a microsecond; the field then
  shows the even one of the two, \<open>125j + 62\<close> or \<open>125j + 63\<close> thousandths
  (62500 ns prints \<open>0.062ms\<close>, 187500 ns \<open>0.188ms\<close>). The specification's
  "fractional milliseconds" does not say how the third decimal is rounded.
\<close>

theorem duration_ties_to_even:
  assumes "0 \<le> j" "62500 * (2 * j + 1) < 2 ^ 53"
  shows "prettyDuration (62500 * (2 * j + 1)) =
           formatF3 (of_int (if even j then 125 * j + 62 else 125 * j + 63) / 1000) @ golit ''ms''"
proof -
  define u where "u = (if even j then 125 * j + 62 else 125 * j + 63)"
  have "\<bar>62500 * (2 * j + 1)\<bar> < 2 ^ 53" using assms by simp
  then have d: "rn53 (of_int (62500 * (2 * j + 1))) / 1000000 = of_int (2 * j + 1) * pow2 (- 4)"
    using rn53_int [of "62500 * (2 * j + 1)"] by (simp add: pow2_def)
  have "\<bar>2 * j + 1\<bar> < 2 ^ 53" using assms by simp
  then have q: "rn53 (of_int (2 * j + 1) * pow2 (- 4)) = of_int (2 * j + 1) * pow2 (- 4)" by (rule rn53_dyadic)
  have e: "of_int (2 * j + 1) * pow2 (- 4) * 1000 = of_int (125 * j + 62) + (1 / 2 :: rat)"
    by (simp add: pow2_def algebra_simps)
  have "even (125 * j + 62) \<longleftrightarrow> even j" by presburger
  then have "round_half_even (of_int (125 * j + 62) + 1 / 2) = u"
    unfolding round_half_even_tie u_def by simp
  then have "round_half_even (of_int (2 * j + 1) * pow2 (- 4) * 1000) = u" by (simp only: e)
  moreover have "round_half_even (of_int u / 1000 * 1000) = u" by (rule round_half_even_near) simp
  ultimately have f: "formatF3 (of_int (2 * j + 1) * pow2 (- 4)) = formatF3 (of_int u / 1000)"
    using assms(1) pow2_pos [of "- 4"] by (intro formatF3_cong) (simp_all add: u_def)
  have "prettyDuration (62500 * (2 * j + 1)) =
      formatF3 (rn53 (rn53 (of_int (62500 * (2 * j + 1))) / 1000000)) @ golit ''ms''"
    by (simp only: prettyDuration_def Let_def)
  also have "\<dots> = formatF3 (of_int u / 1000) @ golit ''ms''" by (simp only: d q f)
  finally show ?thesis by (simp only: u_def)
qed

theorem duration_ties_to_even_witness:
  "0 \<le> (1::int) \<and> 62500 * (2 * 1 + 1) < (2::int) ^ 53 \<and> prettyDuration 187500 = golit ''0.188ms''"
proof -
  have h: "0 \<le> (1::int)" "62500 * (2 * 1 + 1) < (2::int) ^ 53" by simp_all
  have "prettyDuration (62500 * (2 * 1 + 1)) = formatF3 (of_int 188 / 1000) @ golit ''ms''"
    using duration_ties_to_even [OF h] by simp
  moreover have "formatF3 (of_int 188 / 1000) @ golit ''ms'' = golit ''0.188ms''" by code_simp
  ultimately show ?thesis by simp
qed
subsection \<open>Reading the log back\<close>

text \<open>
  C2: every Combined entry the logger writes is read back, by a reader of the
  format of the specification (4.2, 4.3), to exactly the fields it was built
  from: host, user, timestamp, the request line (method, target, protocol),
  status, size, latency, referrer and user agent, the last three even when
  empty. The hypotheses are the conditions of the format on the unescaped
  fields: host and user without a space, method and protocol without a
  quote or a backslash.
\<close>

theorem parse_combined_entry:
  assumes "0x20 \<notin> set (logHost (RemoteAddr req))" "0x20 \<notin> set (logUsername (URL req))"
    "dquote \<notin> set (Method req)" "bslash \<notin> set (Method req)"
    "dquote \<notin> set (Proto req)" "bslash \<notin> set (Proto req)"
  shows "parseCombinedEntry (last (writeCombinedLog tb w req ts st sz d)) =
           Some (\<lparr>f_host = logHost (RemoteAddr req), f_user = logUsername (URL req), f_time = FormatCLF ts,
                  f_request = Method req @ golit '' '' @ logURI req @ golit '' '' @ Proto req,
                  f_status = Itoa st, f_size = Itoa sz\<rparr>, prettyDuration d, Referer req, UserAgent req)"
  using assms by (rule parseCombinedEntry_line)

lemma example_request_fields:
  "logHost (RemoteAddr example_request) = golit ''::1'' \<and> logUsername (URL example_request) = golit ''-'' \<and>
   Method example_request = golit ''GET'' \<and> Proto example_request = golit ''HTTP/1.1''"
  unfolding example_request_def by code_simp

theorem parse_combined_entry_witness:
  "0x20 \<notin> set (logHost (RemoteAddr example_request)) \<and> 0x20 \<notin> set (logUsername (URL example_request)) \<and>
   dquote \<notin> set (Method example_request) \<and> bslash \<notin> set (Method example_request) \<and>
   dquote \<notin> set (Proto example_request) \<and> bslash \<notin> set (Proto example_request) \<and>
   parseCombinedEntry (last (writeCombinedLog latin1_tables [] example_request
       \<lparr>unix_sec = 1483384047, zone_offset = 3600\<rparr> 200 13 12000000)) =
     Some (\<lparr>f_host = golit ''::1'', f_user = golit ''-'', f_time = FormatCLF \<lparr>unix_sec = 1483384047, zone_offset = 3600\<rparr>,
            f_request = golit ''GET'' @ golit '' '' @ logURI example_request @ golit '' '' @ golit ''HTTP/1.1'',
            f_status = Itoa 200, f_size = Itoa 13\<rparr>, prettyDuration 12000000,
           Referer example_request, UserAgent example_request)"
proof -
  have h: "0x20 \<notin> set (logHost (RemoteAddr example_request))" "0x20 \<notin> set (logUsername (URL example_request))"
    "dquote \<notin> set (Method example_request)" "bslash \<notin> set (Method example_request)"
    "dquote \<notin> set (Proto example_request)" "bslash \<notin> set (Proto example_request)"
    using example_request_fields by simp_all
  show ?thesis
    using h parse_combined_entry [OF h, of latin1_tables "[]" "\<lparr>unix_sec = 1483384047, zone_offset = 3600\<rparr>" 200 13 12000000]
      example_request_fields by simp
qed

text \<open>
  C7: every Common entry the logger writes is read back to exactly its
  fields, with the latency ending at the newline; hypotheses as for C2.
\<close>

theorem parse_common_entry:
  assumes "0x20 \<notin> set (logHost (RemoteAddr req))" "0x20 \<notin> set (logUsername (URL req))"
    "dquote \<notin> set (Method req)" "bslash \<notin> set (Method req)"
    "dquote \<notin> set (Proto req)" "bslash \<notin> set (Proto req)"
  shows "parseCommonEntry (last (writeCommonLog tb w req ts st sz d)) =
           Some (\<lparr>f_host = logHost (RemoteAddr req), f_user = logUsername (URL req), f_time = FormatCLF ts,
                  f_request = Method req @ golit '' '' @ logURI req @ golit '' '' @ Proto req,
                  f_status = Itoa st, f_size = Itoa sz\<rparr>, prettyDuration d)"
  using assms by (rule parseCommonEntry_line)

theorem parse_common_entry_witness:
  "0x20 \<notin> set (logHost (RemoteAddr example_request)) \<and> 0x20 \<notin> set (logUsername (URL example_request)) \<and>
   dquote \<notin> set (Method example_request) \<and> bslash \<notin> set (Method example_request) \<and>
   dquote \<notin> set (Proto example_request) \<and> bslash \<notin> set (Proto example_request) \<and>
   parseCommonEntry (last (writeCommonLog latin1_tables [] example_request
       \<lparr>unix_sec = 1483384047, zone_offset = 3600\<rparr> 200 13 12000000)) =
     Some (\<lparr>f_host = golit ''::1'', f_user = golit ''-'', f_time = FormatCLF \<lparr>unix_sec = 1483384047, zone_offset = 3600\<rparr>,
            f_request = golit ''GET'' @ golit '' '' @ logURI example_request @ golit '' '' @ golit ''HTTP/1.1'',
            f_status = Itoa 200, f_size = Itoa 13\<rparr>, prettyDuration 12000000)"
proof -
  have h: "0x20 \<notin> set (logHost (RemoteAddr example_request))" "0x20 \<notin> set (logUsername (URL example_request))"
    "dquote \<notin> set (Method example_request)" "bslash \<notin> set (Method example_request)"
    "dquote \<notin> set (Proto example_request)" "bslash \<notin> set (Proto example_request)"
    using example_request_fields by simp_all
  show ?thesis
    using h parse_common_entry [OF h, of latin1_tables "[]" "\<lparr>unix_sec = 1483384047, zone_offset = 3600\<rparr>" 200 13 12000000]
      example_request_fields by simp
qed

subsection \<open>The timestamp\<close>

text \<open>
  C16: the days-to-date conversion behind \<open>Time.Format\<close> yields a month in
  1..12 and a day in 1..31 for every day number, so the month-name lookup of
  the timestamp is always in range.
\<close>

theorem civil_date_bounds:
  assumes "civil_from_days z = (y, m, d)"
  shows "1 \<le> m \<and> m \<le> 12 \<and> 1 \<le> d \<and> d \<le> 31"
  using assms by (rule civil_from_days_bounds)

theorem civil_date_bounds_witness:
  "civil_from_days 17168 = (2017, 1, 2) \<and> 1 \<le> (1::int) \<and> (1::int) \<le> 12 \<and> 1 \<le> (2::int) \<and> (2::int) \<le> 31"
proof -
  have h: "civil_from_days 17168 = (2017, 1, 2)" by code_simp
  show ?thesis using h civil_date_bounds [OF h] by simp
qed

text \<open>
  C17: a handler that copies a body with io.Copy (from a reader that is not an
  io.WriterTo) into the wrapped writer of a net/http connection, which is an
  io.ReaderFrom, goes through chi's fancyWriter.ReadFrom: the client receives
  every byte of the body and the status is 200, but ReadFrom forwards to the
  connection without adding to the byte count, so the size the middleware
  logs leaves the copied body out.
\<close>

theorem copy_body_uncounted:
  "rec_body (inner (snd (runHandler conn_rw wd (NewWrapResponseWriter w) (HCopy src # ops)))) =
     rec_body w @ src @ sentBody ops \<and>
   BytesWritten (snd (runHandler conn_rw wd (NewWrapResponseWriter w) (HCopy src # ops))) = int (bodyLen True ops) \<and>
   Status (snd (runHandler conn_rw wd (NewWrapResponseWriter w) (HCopy src # ops))) = 200"
proof -
  have f: "rw_fancy conn_rw" "rw_accepts conn_rw" using conn_accepts by simp_all
  have "rec_body (inner (snd (runHandler conn_rw wd (NewWrapResponseWriter w) (HCopy src # ops)))) =
      rec_body w @ sentBody (HCopy src # ops)"
    using runHandler_body [of conn_rw wd "NewWrapResponseWriter w" "HCopy src # ops"]
    by (simp add: NewWrapResponseWriter_def)
  moreover have "bytes (snd (runHandler conn_rw wd (NewWrapResponseWriter w) (HCopy src # ops))) =
      int (bodyLen True (HCopy src # ops))"
    using runHandler_bytes [OF f(2), of wd "NewWrapResponseWriter w" "HCopy src # ops"] f(1)
    by (simp add: NewWrapResponseWriter_def)
  moreover have "code (snd (runHandler conn_rw wd (NewWrapResponseWriter w) (HCopy src # ops))) =
      statusOf True (HCopy src # ops)"
    using runHandler_code [of "NewWrapResponseWriter w" conn_rw wd "HCopy src # ops"] f(1)
    by (simp add: NewWrapResponseWriter_def)
  ultimately show ?thesis by (simp add: BytesWritten_def Status_def)
qed

theorem copy_body_uncounted_witness:
  "rec_body (inner (snd (runHandler conn_rw (readme_world :: recorder world) (NewWrapResponseWriter empty_recorder)
      [HCopy (golit ''hello'')]))) = golit ''hello'' \<and>
   BytesWritten (snd (runHandler conn_rw (readme_world :: recorder world) (NewWrapResponseWriter empty_recorder)
      [HCopy (golit ''hello'')])) = 0"
  using copy_body_uncounted [of readme_world empty_recorder "golit ''hello''" "[]"]
  by (simp add: empty_recorder_def)

subsection \<open>Further behaviours\<close>

text \<open>
  C29: a byte that does not start a valid UTF-8 sequence is escaped as
  \<open>\x\<close> and its two hex digits, and the loop resumes at the very next byte:
  an invalid lead byte never swallows the bytes after it (logger.go, lines
  65-72).
\<close>

theorem quote_invalid_byte:
  assumes "0x80 \<le> uint s0" "DecodeRuneInString (s0 # rest) = (RuneError, 1)"
  shows "appendQuoted tb [] (s0 # rest) = hexEscape s0 @ appendQuoted tb [] rest"
proof -
  have "step_rune (s0 # rest) = (RuneError, 1)" using assms by (simp add: step_rune_def RuneSelf_def)
  then have "quoteStep tb (s0 # rest) = (hexEscape s0, 1)" by (simp add: quoteStep_by_rune del: quoteStep.simps)
  then show ?thesis by (simp add: appendQuoted_Cons_step del: quoteStep.simps)
qed

theorem quote_invalid_byte_witness:
  "0x80 \<le> uint (0xE2 :: byte) \<and> DecodeRuneInString [0xE2, 0x41] = (RuneError, 1) \<and>
   appendQuoted latin1_tables [] [0xE2, 0x41] = hexEscape 0xE2 @ appendQuoted latin1_tables [] [0x41]"
proof -
  have h: "0x80 \<le> uint (0xE2 :: byte)" "DecodeRuneInString [0xE2, 0x41] = (RuneError, 1)"
    by (simp_all add: DecodeRuneInString_def first_def acceptRanges_def RuneError_def)
  show ?thesis using h quote_invalid_byte [OF h] by simp
qed

text \<open>
  C30: the host of a bracketed IPv6 remote address \<open>[h]:p\<close> is \<open>h\<close>, without
  the brackets and the port (logger.go, lines 142-146).
\<close>

theorem host_ipv6_stripped:
  assumes "lbrack \<notin> set h" "rbrack \<notin> set h" "colon \<notin> set p" "lbrack \<notin> set p" "rbrack \<notin> set p"
  shows "logHost (lbrack # h @ rbrack # colon # p) = h"
  using SplitHostPort_bracketed [OF assms] by (simp add: logHost_def)

theorem host_ipv6_stripped_witness:
  "lbrack \<notin> set (golit ''::1'') \<and> rbrack \<notin> set (golit ''::1'') \<and> colon \<notin> set (golit ''54321'') \<and>
   lbrack \<notin> set (golit ''54321'') \<and> rbrack \<notin> set (golit ''54321'') \<and>
   logHost (lbrack # golit ''::1'' @ rbrack # colon # golit ''54321'') = golit ''::1''"
proof -
  have h: "lbrack \<notin> set (golit ''::1'')" "rbrack \<notin> set (golit ''::1'')" "colon \<notin> set (golit ''54321'')"
    "lbrack \<notin> set (golit ''54321'')" "rbrack \<notin> set (golit ''54321'')"
    by code_simp+
  show ?thesis using h host_ipv6_stripped [OF h] by simp
qed

text \<open>
  C31: the size the logger reads, \<open>w2.BytesWritten()\<close>, is never negative
  and never more than the bytes the handler handed to the wrapped writer
  (written or copied), for any underlying writer that keeps the
  \<open>io.Writer\<close> contract (\<open>0 \<le> n \<le> len(p)\<close>), short writes included.
\<close>

theorem logged_size_bounded:
  assumes "rw_counts rw"
  shows "0 \<le> BytesWritten (snd (runHandler rw wd (NewWrapResponseWriter w) ops)) \<and>
         BytesWritten (snd (runHandler rw wd (NewWrapResponseWriter w) ops)) \<le> int (length (sentBody ops))"
proof -
  have "0 \<le> bytes (snd (runHandler rw wd (NewWrapResponseWriter w) ops)) \<and>
      bytes (snd (runHandler rw wd (NewWrapResponseWriter w) ops)) \<le> int (bodyLen (rw_fancy rw) ops)"
    using runHandler_bytes_bound [where wd = wd and b = "NewWrapResponseWriter w" and ops = ops, OF assms]
    by (simp add: NewWrapResponseWriter_def)
  then show ?thesis using bodyLen_sentBody [of "rw_fancy rw" ops] by (simp add: BytesWritten_def)
qed

theorem logged_size_bounded_witness:
  "rw_counts short_rw \<and>
   BytesWritten (snd (runHandler short_rw (readme_world :: recorder world) (NewWrapResponseWriter empty_recorder)
     [HWrite (golit ''hello'')])) = 1 \<and>
   1 \<le> int (length (sentBody [HWrite (golit ''hello'')]))"
proof -
  have h: "rw_counts short_rw" by (simp add: rw_counts_def short_rw_def recorder_rw_def)
  have "BytesWritten (snd (runHandler short_rw (readme_world :: recorder world) (NewWrapResponseWriter empty_recorder)
     [HWrite (golit ''hello'')])) = 1"
    by (simp add: short_rw_def recorder_rw_def BytesWritten_def NewWrapResponseWriter_def bwWrite_def
        bwWriteHeader_def Let_def)
  then show ?thesis using h logged_size_bounded [where wd = readme_world and w = empty_recorder and ops = "[HWrite (golit ''hello'')]", OF h]
    by simp
qed

subsection \<open>The loops of the escaper\<close>

text \<open>
  C32: the loop \<open>for width := 0; len(s) > 0; s = s[width:]\<close> of
  \<open>appendQuoted\<close>, run as written (a \<open>while_option\<close> whose body is one
  iteration), exits on every input, with the input consumed and the buffer
  the escaper returns.
\<close>

theorem quote_loop_exits: "quoteLoop tb buf s = Some (appendQuoted tb buf s, [])"
  by (rule quoteLoop_result)

text \<open>
  C33: the shift loops \<open>for s := 12; s >= 0; s -= 4\<close> and
  \<open>for s := 28; s >= 0; s -= 4\<close> of lines 110-117 emit exactly the four and
  eight hex digits of the rune, most significant first (\<open>hexDigits\<close>).
\<close>

theorem hex_shift_loops: "hexLoop r 12 [] = hexDigits 4 r \<and> hexLoop r 28 [] = hexDigits 8 r"
  using hexLoop_digits [of r 3 "[]"] hexLoop_digits [of r 7 "[]"] by simp

subsection \<open>Valid UTF-8\<close>

text \<open>
  C34: whatever its input, valid or not, the escaper's output is valid UTF-8
  (Go's \<open>utf8.ValidString\<close>): invalid bytes become ASCII escapes, printable
  runes are copied as their own encodings.
\<close>

theorem escaped_valid_utf8: "ValidString (appendQuoted tb [] s)"
  by (rule appendQuoted_valid)

text \<open>
  C35: a Combined log line is valid UTF-8 whenever the four fields the logger
  copies without escaping (host, user name, method, protocol) are: the
  escaped fields are valid by C34 and the others are ASCII.
\<close>

theorem combined_line_valid_utf8:
  assumes "ValidString (logHost (RemoteAddr req))" "ValidString (logUsername (URL req))"
    "ValidString (Method req)" "ValidString (Proto req)"
  shows "ValidString (last (writeCombinedLog tb w req ts st sz d))"
  using assms by (rule writeCombinedLog_valid)

theorem combined_line_valid_utf8_witness:
  "ValidString (logHost (RemoteAddr example_request)) \<and> ValidString (logUsername (URL example_request)) \<and>
   ValidString (Method example_request) \<and> ValidString (Proto example_request) \<and>
   ValidString (last (writeCombinedLog latin1_tables [] example_request
       \<lparr>unix_sec = 1483384047, zone_offset = 3600\<rparr> 200 13 12000000))"
proof -
  have h: "ValidString (logHost (RemoteAddr example_request))" "ValidString (logUsername (URL example_request))"
    "ValidString (Method example_request)" "ValidString (Proto example_request)"
    using example_request_fields by (simp_all add: ValidString_asciiI is_ascii_def del: ValidString.simps(2))
  show ?thesis using h combined_line_valid_utf8 [OF h] by simp
qed

subsection \<open>The README's claims\<close>

lemma readme_prefix:
  "buildCommonLogLine latin1_tables example_request \<lparr>unix_sec = 1483384047, zone_offset = 3600\<rparr> 200 14 x =
     golit ''::1 - - [02/Jan/2017:20:07:27 +0100] \"GET / HTTP/1.1\" 200 14 '' @ prettyDuration x"
proof -
  have f: "FormatCLF \<lparr>unix_sec = 1483384047, zone_offset = 3600\<rparr> = golit ''02/Jan/2017:20:07:27 +0100''"
    by code_simp
  have u: "appendQuoted latin1_tables [] (logURI example_request) = golit ''/''"
    unfolding example_request_def by code_simp
  have i: "Itoa 200 = golit ''200''" "Itoa 14 = golit ''14''" by code_simp+
  show ?thesis
    unfolding buildCommonLogLine_def Let_def
    by (subst appendQuoted_append) (simp add: f u i example_request_fields)
qed

text \<open>
  C36: whatever time the handler takes (within the range of the monotonic
  clock), the README's program never logs the line the README shows for it
  (part_000, line 43): the size field is always \<open>14\<close>, never \<open>13\<close>.
\<close>

theorem readme_line_unreachable:
  assumes "int d \<le> maxDuration"
  shows "out (fst (readmeServe latin1_tables recorder_rw d example_request empty_recorder readme_world)) \<noteq>
           [readme_shown_line @ [0x0A]]"
proof -
  let ?P = "golit ''::1 - - [02/Jan/2017:20:07:27 +0100] \"GET / HTTP/1.1\" 200 14 ''"
  have "out (fst (readmeServe latin1_tables recorder_rw d example_request empty_recorder readme_world)) =
    writeCombinedLog latin1_tables [] example_request \<lparr>unix_sec = 1483384047, zone_offset = 3600\<rparr> 200 14 (int d)"
    unfolding readmeServe_def
    using CombinedLogger_out [OF recorder_accepts, of readme_world "helloHandler d" example_request
        latin1_tables empty_recorder] assms
    by (simp add: helloHandler_observed readme_world_def clfTime_def Now_def)
  moreover have "\<exists>rest. writeCombinedLog latin1_tables [] example_request
      \<lparr>unix_sec = 1483384047, zone_offset = 3600\<rparr> 200 14 (int d) = [?P @ rest]"
    unfolding writeCombinedLog_def Let_def readme_prefix
    by (subst (1 2) appendQuoted_append) (simp only: append.assoc append_Nil, intro exI, rule refl)
  ultimately obtain rest where o: "out (fst (readmeServe latin1_tables recorder_rw d example_request empty_recorder readme_world)) =
      [?P @ rest]"
    by auto
  have n: "take (length ?P) (readme_shown_line @ [0x0A]) \<noteq> ?P"
    by (simp add: readme_shown_line_def)
  show ?thesis
  proof
    assume "out (fst (readmeServe latin1_tables recorder_rw d example_request empty_recorder readme_world)) =
      [readme_shown_line @ [0x0A]]"
    then have "?P @ rest = readme_shown_line @ [0x0A]" using o by simp
    then have "?P = take (length ?P) (readme_shown_line @ [0x0A])"
      by (rule append_eq_conv_conj [THEN iffD1, THEN conjunct1])
    with n show False by simp
  qed
qed

theorem readme_line_unreachable_witness:
  "int 12000000 \<le> maxDuration \<and>
   out (fst (readmeServe latin1_tables recorder_rw 12000000 example_request empty_recorder readme_world)) \<noteq>
     [readme_shown_line @ [0x0A]]"
proof -
  have h: "int 12000000 \<le> maxDuration" by (simp add: maxDuration_def)
  show ?thesis using h readme_line_unreachable [OF h] by simp
qed

text \<open>
  C37: the escaper never writes more than six bytes per byte of its input:
  an escaped field of \<open>n\<close> bytes adds at most \<open>6n\<close> bytes to the line. The
  bound is reached by DEL (\<open>\u007f\<close>, C27); a control byte takes four
  (\<open>\x1b\<close>), a rune of two or more bytes at most ten (\<open>\U\<close> and 8 digits).
\<close>

theorem escaped_length_bound: "length (appendQuoted tb buf s) \<le> length buf + 6 * length s"
proof (induction tb buf s rule: appendQuoted.induct)
  case (1 tb buf s)
  show ?case
  proof (cases s)
    case (Cons s0 rest)
    obtain out w where q: "quoteStep tb s = (out, w)" by fastforce
    have w: "length out \<le> 6 * w" "1 \<le> w \<and> w \<le> length s"
      using q quoteStep_length [of tb s0 rest out w] quoteStep_width [of tb s0 rest out w] Cons by simp_all
    have "s \<noteq> []" using Cons by simp
    have b: "length (appendQuoted tb (buf @ out) (drop w s)) \<le> length buf + length out + 6 * (length s - w)"
      using 1 [OF \<open>s \<noteq> []\<close> q [symmetric]] by simp
    have "length buf + length out + 6 * (length s - w) \<le> length buf + 6 * length s" using w by linarith
    with b show ?thesis using appendQuoted_step [OF \<open>s \<noteq> []\<close> q, of buf] by simp
  qed simp
qed
subsection \<open>Exact latencies\<close>

text \<open>
  C38: the two float64 roundings of \<open>prettyDuration\<close> never show for a
  latency of a whole number \<open>k\<close> of microseconds below \<open>2^53\<close> ns: the field is
  the exact value \<open>k/1000\<close> ms printed with three decimals.
\<close>

theorem latency_exact_micros:
  assumes "0 \<le> k" "1000 * k < 2 ^ 53"
  shows "prettyDuration (1000 * k) = formatF3 (of_int k / 1000) @ golit ''ms''"
  using assms by (rule prettyDuration_micros)

theorem latency_exact_micros_witness:
  "0 \<le> (12000::int) \<and> 1000 * (12000::int) < 2 ^ 53 \<and>
   prettyDuration (1000 * 12000) = formatF3 (of_int 12000 / 1000) @ golit ''ms''"
proof -
  have h: "0 \<le> (12000::int)" "1000 * (12000::int) < 2 ^ 53" by simp_all
  show ?thesis using h latency_exact_micros [OF h] by simp
qed

subsection \<open>One line per request\<close>

text \<open>
  C39: a Combined entry holds exactly one line: its last byte is the newline
  and it has no other, whatever the request target, referrer and user agent
  contain, provided the four fields copied without escaping (host, user
  name, method, protocol) contain no newline.
\<close>

theorem combined_single_line:
  assumes "0x0A \<notin> set (logHost (RemoteAddr req))" "0x0A \<notin> set (logUsername (URL req))"
    "0x0A \<notin> set (Method req)" "0x0A \<notin> set (Proto req)"
  shows "0x0A \<notin> set (butlast (last (writeCombinedLog tb w req ts st sz d))) \<and>
         last (last (writeCombinedLog tb w req ts st sz d)) = 0x0A"
  using assms by (rule writeCombinedLog_one_line)

theorem combined_single_line_witness:
  "0x0A \<notin> set (logHost (RemoteAddr example_request)) \<and> 0x0A \<notin> set (logUsername (URL example_request)) \<and>
   0x0A \<notin> set (Method example_request) \<and> 0x0A \<notin> set (Proto example_request) \<and>
   0x0A \<notin> set (butlast (last (writeCombinedLog latin1_tables [] example_request
       \<lparr>unix_sec = 1483384047, zone_offset = 3600\<rparr> 200 13 12000000))) \<and>
   last (last (writeCombinedLog latin1_tables [] example_request
       \<lparr>unix_sec = 1483384047, zone_offset = 3600\<rparr> 200 13 12000000)) = 0x0A"
proof -
  have h: "0x0A \<notin> set (logHost (RemoteAddr example_request))" "0x0A \<notin> set (logUsername (URL example_request))"
    "0x0A \<notin> set (Method example_request)" "0x0A \<notin> set (Proto example_request)"
    using example_request_fields by simp_all
  show ?thesis using h combined_single_line [OF h] by simp
qed

text \<open>
  C40: in every interleaving of concurrent requests on the shared sink, every
  write the sink received is exactly one line, provided no accepted request
  has a newline in its host, user name, method or protocol: the lines of
  concurrent requests are never merged or split.
\<close>

theorem concurrent_single_lines:
  assumes "reach fmt tb rw hnd s0 s" "reqs s0 = []" "out (env s0) = []"
    "0 \<le> mono (env s0)" "mono (env s0) \<le> maxDuration" "list_all (\<lambda>(r, st). nl_free_fields r) (reqs s)"
  shows "list_all single_line (out (env s))"
proof -
  have "srv_inv s0 s" using assms(1,2,4,5) by (rule reach_srv_inv)
  then have "mset (drop (length (out (env s0))) (out (env s))) = mset (done_lines (reqs s))"
    unfolding srv_inv_def by blast
  then have o: "set (out (env s)) = set (done_lines (reqs s))" using assms(3) by (metis drop0 list.size(3) mset_eq_setD)
  have ds: "list_all (\<lambda>(r, st). nl_free_fields r \<longrightarrow> done_sat single_line st) (reqs s)"
  proof (rule reach_done_sat [OF assms(1,2)])
    fix r ts st sz d
    assume "nl_free_fields r"
    then show "single_line (last (writeLog fmt tb [] r ts st sz d))"
      using nl_free_single_line by (cases fmt) (simp_all add: writeLog_def)
  qed
  show ?thesis unfolding list_all_iff
  proof
    fix l
    assume "l \<in> set (out (env s))"
    then obtain r d where rd: "(r, Done l d) \<in> set (reqs s)" using o done_lines_mem by blast
    then have "nl_free_fields r" using assms(6) by (auto simp: list_all_iff)
    moreover have "nl_free_fields r \<longrightarrow> done_sat single_line (Done l d)"
      using ds rd by (auto simp: list_all_iff)
    ultimately show "single_line l" by simp
  qed
qed

theorem concurrent_single_lines_witness:
  "reach CommonFmt latin1_tables recorder_rw (\<lambda>_. []) srv0 srv2 \<and> reqs srv0 = [] \<and> out (env srv0) = [] \<and>
   0 \<le> mono (env srv0) \<and> mono (env srv0) \<le> maxDuration \<and>
   list_all (\<lambda>(r, st). nl_free_fields r) (reqs srv2) \<and> list_all single_line (out (env srv2))"
proof -
  have h: "reqs srv0 = []" "out (env srv0) = []" "0 \<le> mono (env srv0)" "mono (env srv0) \<le> maxDuration"
    by (simp_all add: srv0_def readme_world_def maxDuration_def)
  have f: "list_all (\<lambda>(r, st). nl_free_fields r) (reqs srv2)"
    using example_request_fields by (simp add: srv2_def nl_free_fields_def)
  show ?thesis using srv_run_example h f concurrent_single_lines [OF srv_run_example h f] by simp
qed

end
